theory Spec2Isabelle
  imports Complex_Main "HOL-Library.AList" "HOL-Library.Sublist"
begin

section \<open>JavaScript numbers\<close>

text \<open>
  A JavaScript number is an IEEE-754 binary64 value: a rational with a significand of 53
  bits and an exponent of at least \<open>-1074\<close>, one of the two infinities, or \<^verbatim>\<open>NaN\<close>. The two
  zeros are one value here; the sign of a zero shows only in a division by it, and the
  server divides by the constant \<^verbatim>\<open>LAMPORTS_PER_SOL\<close> only.
\<close>

datatype js_number = Num rat | Infinity | MinusInfinity | NaN

text \<open>The number of binary digits of a natural number.\<close>

fun bit_length :: "nat \<Rightarrow> nat" where
  "bit_length n = (if n = 0 then 0 else Suc (bit_length (n div 2)))"

declare bit_length.simps [simp del]

definition pow2 :: "int \<Rightarrow> rat" where
  "pow2 e = (if 0 \<le> e then 2 ^ nat e else 1 / 2 ^ nat (- e))"

text \<open>\<open>\<lfloor>log\<^sub>2 q\<rfloor>\<close> for a positive rational \<open>q\<close>.\<close>

definition floor_log2_rat :: "rat \<Rightarrow> int" where
  "floor_log2_rat q =
     (if 1 \<le> q then int (bit_length (nat \<lfloor>q\<rfloor>)) - 1
      else - int (bit_length (nat (\<lceil>1 / q\<rceil> - 1))))"

text \<open>The integer nearest to a rational, a tie going to the even one.\<close>

definition nearest_even :: "rat \<Rightarrow> int" where
  "nearest_even x =
     (let f = \<lfloor>x\<rfloor>; d = x - of_int f
      in if 1 / 2 < d \<or> (d = 1 / 2 \<and> odd f) then f + 1 else f)"

text \<open>
  Rounding to the nearest value with 53 significant bits and an exponent of at least
  \<open>-1074\<close>, ties to the even significand; a result of magnitude \<open>2\<^sup>1\<^sup>0\<^sup>2\<^sup>4\<close> or more is an
  infinity.
\<close>

definition round_double :: "rat \<Rightarrow> rat" where
  "round_double q =
     (if q = 0 then 0
      else let e = max (floor_log2_rat \<bar>q\<bar> - 52) (- 1074)
           in sgn q * (of_int (nearest_even (\<bar>q\<bar> / pow2 e)) * pow2 e))"

definition to_double :: "rat \<Rightarrow> js_number" where
  "to_double q =
     (let r = round_double q
      in if 2 ^ 1024 \<le> r then Infinity
         else if r \<le> - (2 ^ 1024) then MinusInfinity
         else Num r)"

fun num_sign :: "js_number \<Rightarrow> int" where
  "num_sign (Num x) = (if 0 < x then 1 else if x < 0 then - 1 else 0)"
| "num_sign Infinity = 1"
| "num_sign MinusInfinity = - 1"
| "num_sign NaN = 0"

definition infinity_of :: "int \<Rightarrow> js_number" where
  "infinity_of sg = (if 0 < sg then Infinity else MinusInfinity)"

text \<open>The operators \<^verbatim>\<open>*\<close>, \<^verbatim>\<open>+\<close> and \<^verbatim>\<open>/\<close> on numbers.\<close>

definition num_mul :: "js_number \<Rightarrow> js_number \<Rightarrow> js_number" where
  "num_mul a b =
     (if a = NaN \<or> b = NaN then NaN
      else (case (a, b) of
              (Num x, Num y) \<Rightarrow> to_double (x * y)
            | _ \<Rightarrow> (if num_sign a * num_sign b = 0 then NaN
                    else infinity_of (num_sign a * num_sign b))))"

definition num_add :: "js_number \<Rightarrow> js_number \<Rightarrow> js_number" where
  "num_add a b =
     (if a = NaN \<or> b = NaN then NaN
      else (case (a, b) of
              (Num x, Num y) \<Rightarrow> to_double (x + y)
            | (Num x, _) \<Rightarrow> b
            | (_, Num y) \<Rightarrow> a
            | _ \<Rightarrow> (if a = b then a else NaN)))"

definition num_div :: "js_number \<Rightarrow> js_number \<Rightarrow> js_number" where
  "num_div a b =
     (if a = NaN \<or> b = NaN then NaN
      else (case (a, b) of
              (Num x, Num y) \<Rightarrow>
                (if y = 0 then (if x = 0 then NaN else infinity_of (num_sign a))
                 else to_double (x / y))
            | (Num x, _) \<Rightarrow> Num 0
            | (_, Num y) \<Rightarrow> infinity_of (num_sign a * (if y < 0 then - 1 else 1))
            | _ \<Rightarrow> NaN))"

section \<open>Data model of server.js\<close>

text \<open>
  The embedding follows \<^verbatim>\<open>src/server.js\<close>. JavaScript numbers that hold counters and
  hit points are integers (\<^typ>\<open>int\<close>), timestamps are milliseconds (\<^typ>\<open>int\<close>). The
  amounts and totals of the bets, which come from the body of a request, are
  \<^typ>\<open>js_number\<close>; the numbers of the settlement, whose operands are integers, are
  integers with the rounding of doubles written out. A string is a \<^typ>\<open>string\<close>: the
  characters of an ASCII string, in general the bytes of the UTF-8 form of a well-formed
  string (one well-formed string occurs in another as a sequence of UTF-16 code units
  exactly when it does as a sequence of bytes). A \<^verbatim>\<open>Map\<close> is an association list in
  insertion order (the order \<^verbatim>\<open>Map.entries()\<close> yields), \<^verbatim>\<open>null\<close> is \<^const>\<open>None\<close>.

  The record \<open>config\<close> holds what the module is given when it is loaded: the constants
  read from the environment (lines 47--61), \<^verbatim>\<open>INITIAL_HP\<close> taken to be an integer, and
  \<open>toUpperCase\<close>, the \<^verbatim>\<open>String.prototype.toUpperCase\<close> of the engine that runs it. The
  Unicode case mappings behind that function are not part of the repository; it is kept
  as a component the theorems quantify over.
\<close>

datatype phase = Idle | Betting | Fighting | Ended

record config =
  TRIGGER_KEYWORDS :: "string list"
  HEAL_KEYWORDS :: "string list"
  INITIAL_HP :: int
  FEE_PERCENTAGE :: int
  toUpperCase :: "string \<Rightarrow> string"

text \<open>
  Lines 49--50: \<^verbatim>\<open>(value).split(',').map(s => s.trim()).filter(Boolean)\<close>, where the value
  is the environment variable or the default list. \<^verbatim>\<open>String.prototype.trim\<close> is a
  parameter; \<^verbatim>\<open>filter(Boolean)\<close> keeps the strings that are not empty.
\<close>

fun split_comma :: "string \<Rightarrow> string list" where
  "split_comma [] = [[]]"
| "split_comma (c # cs) =
     (if c = CHR '','' then [] # split_comma cs
      else (case split_comma cs of [] \<Rightarrow> [[c]] | w # ws \<Rightarrow> (c # w) # ws))"

definition parse_keywords :: "(string \<Rightarrow> string) \<Rightarrow> string \<Rightarrow> string list" where
  "parse_keywords trim csv = filter (\<lambda>s. s \<noteq> []) (map trim (split_comma csv))"

definition BETTING_DURATION :: int where
  "BETTING_DURATION = 60"

definition FIGHT_DURATION :: int where
  "FIGHT_DURATION = 60"

definition LAMPORTS_PER_SOL :: int where
  "LAMPORTS_PER_SOL = 1000000000"

record hit_entry =
  username :: string
  message :: string
  timestamp :: int
  delta :: int

record bet_info =
  bet_username :: string
  bet_amount :: js_number
  bet_prediction :: "string option"
  bet_signature :: "string option"
  bet_timestamp :: int

datatype pda = BettingRoundPDA int | EscrowPDA int

datatype callback = StartFightingPhase_cb nat | EndFight_cb string

record game_state =
  gamePhase :: phase
  currentRoundId :: int
  bossHP :: int
  userHits :: "(string \<times> int) list"
  chronological :: "hit_entry list"
  lastHitter :: "string option"
  totalHits :: int
  bettingEndTime :: "int option"
  fightEndTime :: "int option"
  gameTimer :: "callback option"
  bettingRoundPDA :: "pda option"
  escrowPDA :: "pda option"
  onChainBets :: "(string \<times> bet_info) list"
  totalDeathBets :: js_number
  totalSurvivalBets :: js_number

text \<open>The module-level initialisers (lines 121--144).\<close>

definition initial_state :: "config \<Rightarrow> game_state" where
  "initial_state cfg =
     \<lparr>gamePhase = Idle, currentRoundId = 0, bossHP = INITIAL_HP cfg, userHits = [],
      chronological = [], lastHitter = None, totalHits = 0, bettingEndTime = None,
      fightEndTime = None, gameTimer = None, bettingRoundPDA = None, escrowPDA = None,
      onChainBets = [], totalDeathBets = Num 0, totalSurvivalBets = Num 0\<rparr>"

record results =
  r_currentRoundId :: int
  r_bossDefeated :: bool
  r_topDamageDealer :: "string option"
  r_topDamage :: int
  r_lastHitter :: "string option"
  r_scores :: "(string \<times> int) list"
  r_totalHits :: int
  r_totalDeathBets :: js_number
  r_totalSurvivalBets :: js_number
  r_bettingRoundPDA :: "pda option"

record payout_result =
  p_username :: string
  p_wallet :: string
  p_betAmount :: int
  p_prizeShare :: int
  p_totalPayout :: int
  p_signature :: string

text \<open>
  What a handler does besides changing the state: socket.io broadcasts, timers, ledger
  calls and the export, in the order the handler issues them.
\<close>

datatype rpc_call =
    InitializeBettingRound int int int int int
  | StartFightPhase
  | EndFight_rpc
  | ClaimPayout string string
  | ClaimFees

datatype broadcast =
    Update int int "(string \<times> int) list" "string option" hit_entry int
  | PhaseChange phase string
  | BettingUpdate js_number js_number nat
  | GameReset phase int int
  | FightEnded phase bool results
  | PayoutsProcessed bool string int int "payout_result list"

datatype effect =
    Emit broadcast
  | SetTimeout callback int
  | ClearTimeout
  | Rpc rpc_call
  | ExportResults results

section \<open>Keyword interpreter and hit accounting\<close>

text \<open>
  Lines 938--945: \<^verbatim>\<open>KEYWORDS.some(k => k && text.includes(k.toUpperCase()))\<close>, where
  \<open>text\<close> is the message in upper case (line 934). \<^verbatim>\<open>text.includes(u)\<close> is
  \<^term>\<open>sublist u text\<close>, a contiguous occurrence. The empty string is falsy, so an empty
  keyword never matches.
\<close>

definition some_keyword :: "(string \<Rightarrow> string) \<Rightarrow> string list \<Rightarrow> string \<Rightarrow> bool" where
  "some_keyword upper ks text = list_ex (\<lambda>k. k \<noteq> [] \<and> sublist (upper k) text) ks"

definition hasHitKeyword :: "config \<Rightarrow> string \<Rightarrow> bool" where
  "hasHitKeyword cfg msg =
     some_keyword (toUpperCase cfg) (TRIGGER_KEYWORDS cfg) (toUpperCase cfg msg)"

definition hasHealKeyword :: "config \<Rightarrow> string \<Rightarrow> bool" where
  "hasHealKeyword cfg msg =
     some_keyword (toUpperCase cfg) (HEAL_KEYWORDS cfg) (toUpperCase cfg msg)"

text \<open>Lines 935--955: the delta of a message, exactly \<open>-1\<close>, \<open>+1\<close> or \<open>0\<close>.\<close>

definition message_delta :: "config \<Rightarrow> string \<Rightarrow> int" where
  "message_delta cfg msg =
     (if hasHitKeyword cfg msg \<and> \<not> hasHealKeyword cfg msg then - 1
      else if hasHealKeyword cfg msg \<and> \<not> hasHitKeyword cfg msg then 1
      else 0)"

text \<open>\<^verbatim>\<open>userHits.get(username) || 0\<close>.\<close>

definition get_or_zero :: "(string \<times> int) list \<Rightarrow> string \<Rightarrow> int" where
  "get_or_zero m k = (case map_of m k of None \<Rightarrow> 0 | Some h \<Rightarrow> h)"

text \<open>
  Lines 991--995. \<^verbatim>\<open>Array.prototype.sort\<close> is stable; with the comparator
  \<^verbatim>\<open>b.hits - a.hits\<close> it is the stable sort by decreasing hits. \<^verbatim>\<open>slice(0, n)\<close> keeps
  the first \<open>n\<close> elements, and for a negative \<open>n\<close> drops the last \<open>-n\<close>.
\<close>

definition slice0 :: "int \<Rightarrow> 'a list \<Rightarrow> 'a list" where
  "slice0 n xs = (if n < 0 then take (nat (int (length xs) + n)) xs else take (nat n) xs)"

definition getTop :: "int \<Rightarrow> game_state \<Rightarrow> (string \<times> int) list" where
  "getTop n s = slice0 n (sort_key (\<lambda>e. - snd e) (userHits s))"

text \<open>\<^verbatim>\<open>Math.max(0, t - Date.now())\<close> where \<^verbatim>\<open>null\<close> counts as \<open>0\<close>.\<close>

definition time_remaining :: "int option \<Rightarrow> int \<Rightarrow> int" where
  "time_remaining t now = max 0 ((case t of None \<Rightarrow> 0 | Some e \<Rightarrow> e) - now)"

text \<open>
  Lines 931--989. \<open>now\<close> is the value of \<^verbatim>\<open>Date.now()\<close> read for the broadcast. A message
  that is a string satisfies \<^verbatim>\<open>(message || '') = message\<close>.
\<close>

definition handleChatMessage ::
  "config \<Rightarrow> int \<Rightarrow> string \<Rightarrow> string \<Rightarrow> int \<Rightarrow> game_state \<Rightarrow> game_state \<times> effect list" where
  "handleChatMessage cfg now user msg ts s =
     (if gamePhase s \<noteq> Fighting then (s, [])
      else
        let d = message_delta cfg msg in
        if d = 0 then (s, [])
        else
          let hitsDelta = \<bar>d\<bar>;
              s1 = (if d < 0
                    then s\<lparr>totalHits := totalHits s + hitsDelta,
                           userHits := AList.update user (get_or_zero (userHits s) user + hitsDelta)
                                         (userHits s),
                           lastHitter := Some user\<rparr>
                    else s);
              e = \<lparr>username = user, message = msg, timestamp = ts, delta = d\<rparr>;
              s2 = s1\<lparr>chronological := chronological s1 @ [e]\<rparr>;
              s3 = s2\<lparr>bossHP := max 0 (min (INITIAL_HP cfg) (bossHP s2 + d))\<rparr>
          in (s3, [Emit (Update (bossHP s3) (INITIAL_HP cfg) (getTop 3 s3) (lastHitter s3)
                          (last (chronological s3)) (time_remaining (fightEndTime s3) now))]))"

text \<open>Lines 896--925.\<close>

definition resetGame :: "config \<Rightarrow> game_state \<Rightarrow> game_state \<times> effect list" where
  "resetGame cfg s =
     (let s1 = s\<lparr>gamePhase := Idle, currentRoundId := 0, bossHP := INITIAL_HP cfg,
                 userHits := [], chronological := [], lastHitter := None, totalHits := 0,
                 onChainBets := [], totalDeathBets := Num 0,
                 totalSurvivalBets := Num 0,
                 bettingEndTime := None, fightEndTime := None, bettingRoundPDA := None,
                 escrowPDA := None\<rparr>
      in (s1\<lparr>gameTimer := None\<rparr>,
          (if gameTimer s1 \<noteq> None then [ClearTimeout] else []) @
          [Emit (GameReset Idle (INITIAL_HP cfg) (INITIAL_HP cfg))]))"

text \<open>Lines 997--1014. \<^verbatim>\<open>getTop(1)[0] || null\<close> is the first entry, when there is one.\<close>

definition buildResults :: "bool \<Rightarrow> game_state \<Rightarrow> results" where
  "buildResults bossDefeated s =
     (let top = (case getTop 1 s of [] \<Rightarrow> None | e # _ \<Rightarrow> Some e)
      in \<lparr>r_currentRoundId = currentRoundId s,
          r_bossDefeated = bossDefeated,
          r_topDamageDealer = (case top of None \<Rightarrow> None | Some e \<Rightarrow> Some (fst e)),
          r_topDamage = (case top of None \<Rightarrow> 0 | Some e \<Rightarrow> snd e),
          r_lastHitter = lastHitter s,
          r_scores = userHits s,
          r_totalHits = totalHits s,
          r_totalDeathBets = num_div (totalDeathBets s) (Num (of_int LAMPORTS_PER_SOL)),
          r_totalSurvivalBets =
            num_div (totalSurvivalBets s) (Num (of_int LAMPORTS_PER_SOL)),
          r_bettingRoundPDA = bettingRoundPDA s\<rparr>)"

section \<open>Bet notifications\<close>

text \<open>
  Lines 195--226. \<open>n_amount\<close> is the number the operator \<^verbatim>\<open>*\<close> makes of the body's
  \<^verbatim>\<open>amount\<close>: the double a JSON number denotes, \<^const>\<open>NaN\<close> for a field that is missing. A
  \<^verbatim>\<open>prediction\<close> that is missing or not a string is \<^const>\<open>None\<close>. The product
  \<^verbatim>\<open>amount * LAMPORTS_PER_SOL\<close> and the sums \<^verbatim>\<open>+=\<close> are those of doubles; nothing is
  rounded to an integer. \<^verbatim>\<open>Map.set\<close> on a key that is present replaces its value in
  place, and appends the entry otherwise: \<^const>\<open>AList.update\<close>.
\<close>

record notification =
  n_walletAddress :: string
  n_username :: string
  n_amount :: js_number
  n_prediction :: "string option"
  n_signature :: "string option"

definition bet_notification :: "int \<Rightarrow> notification \<Rightarrow> game_state \<Rightarrow> game_state \<times> effect list" where
  "bet_notification now b s =
     (let lamports = num_mul (n_amount b) (Num (of_int LAMPORTS_PER_SOL));
          s1 = s\<lparr>onChainBets :=
                   AList.update (n_walletAddress b)
                     \<lparr>bet_username = n_username b, bet_amount = lamports,
                      bet_prediction = n_prediction b, bet_signature = n_signature b,
                      bet_timestamp = now\<rparr>
                     (onChainBets s)\<rparr>;
          s2 = (if n_prediction b = Some ''death''
                then s1\<lparr>totalDeathBets := num_add (totalDeathBets s1) lamports\<rparr>
                else s1\<lparr>totalSurvivalBets := num_add (totalSurvivalBets s1) lamports\<rparr>)
      in (s2, [Emit (BettingUpdate
                       (num_div (totalDeathBets s2) (Num (of_int LAMPORTS_PER_SOL)))
                       (num_div (totalSurvivalBets s2) (Num (of_int LAMPORTS_PER_SOL)))
                       (length (onChainBets s2)))]))"

section \<open>Ledger accounts and results of remote calls\<close>

text \<open>
  An awaited ledger call either returns or throws. The result is an input of the model:
  \<^term>\<open>Inl e\<close> for a throw, \<^term>\<open>Inr v\<close> for a value. The only property of an error the
  server looks at is whether its code is \<^verbatim>\<open>BettingStillActive\<close>. The account records hold
  the integers the ledger stores (amounts and counts unsigned) and the prediction as the
  string \<^verbatim>\<open>Object.keys(...)[0]\<close> yields.
\<close>

datatype rpc_error = BettingStillActive | OtherError

record betting_round_account =
  a_roundId :: nat
  a_totalDeathBets :: nat
  a_totalSurvivalBets :: nat
  a_totalBetsCount :: nat
  a_bossDefeated :: bool
  a_feePercentage :: nat

record bet_account =
  b_bettor :: string
  b_username :: string
  b_amount :: nat
  b_prediction :: string
  b_timestamp :: int

text \<open>
  \<^verbatim>\<open>.toNumber()\<close> of the ledger's big integers: the value when it has at most 53 bits,
  and an assertion error otherwise.
\<close>

definition toNumber :: "int \<Rightarrow> rpc_error + int" where
  "toNumber n = (if \<bar>n\<bar> < 2 ^ 53 then Inr n else Inl OtherError)"

section \<open>Settlement\<close>

subsection \<open>Arithmetic of JavaScript numbers on integers\<close>

text \<open>
  The operands of the settlement are integers, and so are its results, rounded to the
  nearest double, ties to the even significand. The functions below give the integer
  results of \<^verbatim>\<open>a * b\<close>, \<^verbatim>\<open>a + b\<close>, \<^verbatim>\<open>a - b\<close> and \<^verbatim>\<open>Math.floor(x / y)\<close> for \<open>y > 0\<close>.
\<close>

text \<open>The integer nearest to \<open>n / d\<close> (for \<open>d > 0\<close>), ties to even.\<close>

definition round_half_even :: "int \<Rightarrow> int \<Rightarrow> int" where
  "round_half_even n d =
     (let q = n div d; r = n mod d
      in if 2 * r > d \<or> (2 * r = d \<and> odd q) then q + 1 else q)"

text \<open>The double nearest to an integer.\<close>

definition fl_int :: "int \<Rightarrow> int" where
  "fl_int n =
     (if \<bar>n\<bar> < 2 ^ 53 then n
      else let e = bit_length (nat \<bar>n\<bar>) - 53
           in sgn n * (round_half_even \<bar>n\<bar> (2 ^ e) * 2 ^ e))"

definition js_mul :: "int \<Rightarrow> int \<Rightarrow> int" where
  "js_mul a b = fl_int (a * b)"

definition js_add :: "int \<Rightarrow> int \<Rightarrow> int" where
  "js_add a b = fl_int (a + b)"

definition js_sub :: "int \<Rightarrow> int \<Rightarrow> int" where
  "js_sub a b = fl_int (a - b)"

text \<open>\<open>n / d \<ge> 2 ^ t\<close> for positive \<open>n\<close>, \<open>d\<close> and an integer \<open>t\<close>.\<close>

definition ge_pow2 :: "int \<Rightarrow> int \<Rightarrow> int \<Rightarrow> bool" where
  "ge_pow2 n d t = (if 0 \<le> t then d * 2 ^ nat t \<le> n else d \<le> n * 2 ^ nat (- t))"

text \<open>\<open>\<lfloor>log\<^sub>2 (n / d)\<rfloor>\<close> for positive \<open>n\<close>, \<open>d\<close>.\<close>

definition floor_log2 :: "int \<Rightarrow> int \<Rightarrow> int" where
  "floor_log2 n d =
     (let t = int (bit_length (nat n)) - int (bit_length (nat d))
      in if ge_pow2 n d t then t else t - 1)"

text \<open>
  \<^verbatim>\<open>Math.floor(x / y)\<close>: the quotient is scaled by \<open>2 ^ k\<close> into \<open>[2 ^ 52, 2 ^ 53)\<close>, rounded
  to an integer significand \<open>m\<close>, and the floor of \<open>\<plusminus> m / 2 ^ k\<close> is taken.
\<close>

definition js_floor_div :: "int \<Rightarrow> int \<Rightarrow> int" where
  "js_floor_div x y =
     (if x = 0 then 0
      else
        let a = \<bar>x\<bar>;
            k = 52 - floor_log2 a y;
            m = (if 0 \<le> k then round_half_even (a * 2 ^ nat k) y
                 else round_half_even a (y * 2 ^ nat (- k)));
            sm = (if 0 < x then m else - m)
        in if 0 \<le> k then sm div 2 ^ nat k else sm * 2 ^ nat (- k))"

subsection \<open>processPayouts\<close>

text \<open>Lines 791--794, for one winning bet.\<close>

definition feeAmount :: "int \<Rightarrow> int \<Rightarrow> int" where
  "feeAmount totalLoserBets feePercentage = js_floor_div (js_mul totalLoserBets feePercentage) 100"

definition prizePool :: "int \<Rightarrow> int \<Rightarrow> int" where
  "prizePool totalLoserBets feePercentage =
     js_sub totalLoserBets (feeAmount totalLoserBets feePercentage)"

definition prizeShare :: "int \<Rightarrow> int \<Rightarrow> int \<Rightarrow> int \<Rightarrow> int" where
  "prizeShare totalLoserBets feePercentage totalWinnerBets betAmount =
     js_floor_div (js_mul (prizePool totalLoserBets feePercentage) betAmount) totalWinnerBets"

definition totalPayout :: "int \<Rightarrow> int \<Rightarrow> int \<Rightarrow> int \<Rightarrow> int" where
  "totalPayout totalLoserBets feePercentage totalWinnerBets betAmount =
     js_add betAmount (prizeShare totalLoserBets feePercentage totalWinnerBets betAmount)"

text \<open>Lines 707--728. The outcome of the call is only logged.\<close>

definition claimFees :: "game_state \<Rightarrow> effect list" where
  "claimFees s = (if bettingRoundPDA s = None \<or> escrowPDA s = None then [] else [Rpc ClaimFees])"

text \<open>
  One bet account of the scan: its address, the result of fetching it, and the result of
  the \<^verbatim>\<open>claimPayout\<close> call (the transaction signature) should the server issue one.
\<close>

type_synonym scanned_bet = "string \<times> (rpc_error + bet_account) \<times> (rpc_error + string)"

text \<open>
  Lines 783--830: the entry pushed for a payout that went through (lines 813--820), the
  loop body and the loop. The amounts of an entry, and those of the broadcast after the
  loop, are kept in lamports (the source divides each by \<^verbatim>\<open>LAMPORTS_PER_SOL\<close> for
  display). A bet whose read or whose \<^verbatim>\<open>amount.toNumber()\<close> throws is logged and skipped.
\<close>

definition payout_entry ::
  "int \<Rightarrow> int \<Rightarrow> int \<Rightarrow> bet_account \<Rightarrow> int \<Rightarrow> string \<Rightarrow> payout_result" where
  "payout_entry totalWinnerBets totalLoserBets feePercentage betData betAmount tx =
     \<lparr>p_username = b_username betData, p_wallet = b_bettor betData,
      p_betAmount = betAmount,
      p_prizeShare = prizeShare totalLoserBets feePercentage totalWinnerBets betAmount,
      p_totalPayout = totalPayout totalLoserBets feePercentage totalWinnerBets betAmount,
      p_signature = tx\<rparr>"

definition payout_step ::
  "string \<Rightarrow> int \<Rightarrow> int \<Rightarrow> int \<Rightarrow> scanned_bet \<Rightarrow> effect list \<times> payout_result list" where
  "payout_step winningPrediction totalWinnerBets totalLoserBets feePercentage sb =
     (case sb of (pubkey, fetched, claimed) \<Rightarrow>
        (case fetched of
           Inl _ \<Rightarrow> ([], [])
         | Inr betData \<Rightarrow>
             (case toNumber (int (b_amount betData)) of
                Inl _ \<Rightarrow> ([], [])
              | Inr betAmount \<Rightarrow>
                  if b_prediction betData = winningPrediction
                  then (case claimed of
                          Inl _ \<Rightarrow> ([Rpc (ClaimPayout pubkey (b_bettor betData))], [])
                        | Inr tx \<Rightarrow>
                            ([Rpc (ClaimPayout pubkey (b_bettor betData))],
                             [payout_entry totalWinnerBets totalLoserBets feePercentage
                                betData betAmount tx]))
                  else ([], []))))"

fun payout_loop ::
  "string \<Rightarrow> int \<Rightarrow> int \<Rightarrow> int \<Rightarrow> scanned_bet list \<Rightarrow> effect list \<times> payout_result list" where
  "payout_loop wp w l f [] = ([], [])"
| "payout_loop wp w l f (sb # rest) =
     (let (fx, rs) = payout_step wp w l f sb; (fx', rs') = payout_loop wp w l f rest
      in (fx @ fx', rs @ rs'))"

text \<open>Lines 745--747.\<close>

definition winningPrediction :: "bool \<Rightarrow> string" where
  "winningPrediction bossDefeated = (if bossDefeated then ''death'' else ''survival'')"

definition totalWinnerBets :: "bool \<Rightarrow> int \<Rightarrow> int \<Rightarrow> int" where
  "totalWinnerBets bossDefeated totalDeathBetsLamports totalSurvivalBetsLamports =
     (if bossDefeated then totalDeathBetsLamports else totalSurvivalBetsLamports)"

definition totalLoserBets :: "bool \<Rightarrow> int \<Rightarrow> int \<Rightarrow> int" where
  "totalLoserBets bossDefeated totalDeathBetsLamports totalSurvivalBetsLamports =
     (if bossDefeated then totalSurvivalBetsLamports else totalDeathBetsLamports)"

text \<open>
  Lines 730--849. The result is the effects issued and either the error thrown or the
  value returned (\<^const>\<open>None\<close> for a bare \<^verbatim>\<open>return\<close>). An error of the read of the
  round, of the two conversions of lines 742--743 or of the scan is rethrown.
\<close>

definition processPayouts ::
  "(rpc_error + betting_round_account) \<Rightarrow> (rpc_error + scanned_bet list) \<Rightarrow> game_state \<Rightarrow>
     effect list \<times> (rpc_error + payout_result list option)" where
  "processPayouts fetchedRound scanned s =
     (if bettingRoundPDA s = None then ([], Inr None)
      else case fetchedRound of
        Inl err \<Rightarrow> ([], Inl err)
      | Inr acct \<Rightarrow>
          (case toNumber (int (a_totalDeathBets acct)) of
             Inl err \<Rightarrow> ([], Inl err)
           | Inr totalDeathBetsLamports \<Rightarrow>
               (case toNumber (int (a_totalSurvivalBets acct)) of
                  Inl err \<Rightarrow> ([], Inl err)
                | Inr totalSurvivalBetsLamports \<Rightarrow>
                    (let bossDefeated = a_bossDefeated acct;
                         wp = winningPrediction bossDefeated;
                         w = totalWinnerBets bossDefeated totalDeathBetsLamports
                               totalSurvivalBetsLamports;
                         l = totalLoserBets bossDefeated totalDeathBetsLamports
                               totalSurvivalBetsLamports
                     in if w = 0 then (claimFees s, Inr None)
                        else (case scanned of
                                Inl err \<Rightarrow> ([], Inl err)
                              | Inr betAccounts \<Rightarrow>
                                  (let (fx, payoutResults) =
                                        payout_loop wp w l (int (a_feePercentage acct))
                                          betAccounts
                                   in (fx @ claimFees s @
                                       [Emit (PayoutsProcessed bossDefeated wp l w
                                                payoutResults)],
                                       Inr (Some payoutResults))))))))"

section \<open>Phase transitions\<close>

text \<open>
  An \<^verbatim>\<open>async\<close> function runs without interruption up to each \<^verbatim>\<open>await\<close>; other handlers
  may run before it resumes. Each stretch between two awaits that writes the state is a
  function of its own here, and the whole function, where a claim is about it, is their
  composition with the results of the awaited calls as inputs.
\<close>

subsection \<open>startBettingPhase\<close>

text \<open>Lines 509--544, up to the ledger call.\<close>

definition startBettingPhase_begin :: "config \<Rightarrow> int \<Rightarrow> game_state \<Rightarrow> game_state \<times> effect list" where
  "startBettingPhase_begin cfg now s =
     (if gamePhase s \<noteq> Idle \<and> gamePhase s \<noteq> Ended then (s, [])
      else
        let (s1, fx) = resetGame cfg s;
            s2 = s1\<lparr>currentRoundId := now, bettingRoundPDA := Some (BettingRoundPDA now),
                    escrowPDA := Some (EscrowPDA now)\<rparr>
        in (s2, fx @ [Rpc (InitializeBettingRound now BETTING_DURATION FIGHT_DURATION
                            (INITIAL_HP cfg) (FEE_PERCENTAGE cfg))]))"

text \<open>
  Lines 546--570, after the ledger call. Building the broadcast calls \<^verbatim>\<open>toString\<close> on both
  addresses, which throws into the \<^verbatim>\<open>catch\<close> when a reset has cleared them meanwhile.
\<close>

definition startBettingPhase_resume ::
  "(rpc_error + unit) \<Rightarrow> int \<Rightarrow> game_state \<Rightarrow> game_state \<times> effect list" where
  "startBettingPhase_resume initialized now s =
     (case initialized of
        Inl _ \<Rightarrow> (s\<lparr>gamePhase := Idle\<rparr>, [])
      | Inr _ \<Rightarrow>
          let s1 = s\<lparr>gamePhase := Betting,
                     bettingEndTime := Some (now + BETTING_DURATION * 1000)\<rparr>
          in if bettingRoundPDA s1 = None \<or> escrowPDA s1 = None
             then (s1\<lparr>gamePhase := Idle\<rparr>, [])
             else (s1\<lparr>gameTimer := Some (StartFightingPhase_cb 0)\<rparr>,
                   [Emit (PhaseChange Betting
                      ''Betting phase started! Place your bets on boss death or survival!''),
                    SetTimeout (StartFightingPhase_cb 0) (BETTING_DURATION * 1000)]))"

subsection \<open>loadBettingData\<close>

text \<open>
  Lines 636--640, the stretch after the read of the round. Each of the three conversions
  may throw; what the lines before it wrote stays written. The second component is the
  error thrown, if any.
\<close>

definition loadBettingData_totals ::
  "betting_round_account \<Rightarrow> game_state \<Rightarrow> game_state \<times> rpc_error option" where
  "loadBettingData_totals acct s =
     (case toNumber (int (a_totalDeathBets acct)) of
        Inl err \<Rightarrow> (s, Some err)
      | Inr d \<Rightarrow>
          (let s1 = s\<lparr>totalDeathBets := Num (of_int d)\<rparr>
           in (case toNumber (int (a_totalSurvivalBets acct)) of
                 Inl err \<Rightarrow> (s1, Some err)
               | Inr v \<Rightarrow>
                   (let s2 = s1\<lparr>totalSurvivalBets := Num (of_int v)\<rparr>
                    in (case toNumber (int (a_totalBetsCount acct)) of
                          Inl err \<Rightarrow> (s2, Some err)
                        | Inr _ \<Rightarrow> (s2, None))))))"

text \<open>Line 663.\<close>

definition loadBettingData_clear :: "game_state \<Rightarrow> game_state" where
  "loadBettingData_clear s = s\<lparr>onChainBets := []\<rparr>"

text \<open>
  Lines 667--672, for a bet that was read. When one of the two conversions throws,
  \<^verbatim>\<open>set\<close> is not reached.
\<close>

definition loadBettingData_set :: "bet_account \<Rightarrow> game_state \<Rightarrow> game_state" where
  "loadBettingData_set betData s =
     (case toNumber (int (b_amount betData)) of
        Inl _ \<Rightarrow> s
      | Inr amount \<Rightarrow>
          (case toNumber (b_timestamp betData) of
             Inl _ \<Rightarrow> s
           | Inr ts \<Rightarrow>
               s\<lparr>onChainBets :=
                   AList.update (b_bettor betData)
                     \<lparr>bet_username = b_username betData, bet_amount = Num (of_int amount),
                      bet_prediction = Some (b_prediction betData), bet_signature = None,
                      bet_timestamp = ts\<rparr>
                     (onChainBets s)\<rparr>))"

text \<open>Lines 664--676: a bet whose read or conversion throws is logged and skipped.\<close>

fun loadBettingData_loop :: "(string \<times> (rpc_error + bet_account)) list \<Rightarrow> game_state \<Rightarrow> game_state" where
  "loadBettingData_loop [] s = s"
| "loadBettingData_loop ((pubkey, fetched) # rest) s =
     loadBettingData_loop rest
       (case fetched of Inl _ \<Rightarrow> s | Inr betData \<Rightarrow> loadBettingData_set betData s)"

text \<open>
  Lines 630--688. The third component is the error the function rethrows, if any; what it
  wrote before stays written.
\<close>

definition loadBettingData ::
  "(rpc_error + betting_round_account) \<Rightarrow>
   (rpc_error + (string \<times> (rpc_error + bet_account)) list) \<Rightarrow> game_state \<Rightarrow>
     game_state \<times> effect list \<times> rpc_error option" where
  "loadBettingData fetchedRound scanned s =
     (if bettingRoundPDA s = None then (s, [], None)
      else case fetchedRound of
        Inl err \<Rightarrow> (s, [], Some err)
      | Inr acct \<Rightarrow>
          (case loadBettingData_totals acct s of
             (s1, Some err) \<Rightarrow> (s1, [], Some err)
           | (s1, None) \<Rightarrow>
               (case scanned of
                  Inl err \<Rightarrow> (s1, [], Some err)
                | Inr betAccounts \<Rightarrow>
                    (let s2 = loadBettingData_loop betAccounts (loadBettingData_clear s1)
                     in (s2,
                         [Emit (BettingUpdate
                                  (num_div (totalDeathBets s2) (Num (of_int LAMPORTS_PER_SOL)))
                                  (num_div (totalSurvivalBets s2)
                                     (Num (of_int LAMPORTS_PER_SOL)))
                                  (length (onChainBets s2)))],
                         None)))))"

subsection \<open>startFightingPhase\<close>

text \<open>Lines 591--592.\<close>

definition startFightingPhase_entered :: "int \<Rightarrow> game_state \<Rightarrow> game_state" where
  "startFightingPhase_entered now s =
     s\<lparr>gamePhase := Fighting, fightEndTime := Some (now + FIGHT_DURATION * 1000)\<rparr>"

text \<open>Lines 606--608.\<close>

definition startFightingPhase_timer :: "game_state \<Rightarrow> game_state" where
  "startFightingPhase_timer s = s\<lparr>gameTimer := Some (EndFight_cb ''timeout'')\<rparr>"

text \<open>Lines 610--627, the \<^verbatim>\<open>catch\<close> block, for the error caught and the retry count.\<close>

definition startFightingPhase_catch ::
  "rpc_error \<Rightarrow> nat \<Rightarrow> game_state \<Rightarrow> game_state \<times> effect list" where
  "startFightingPhase_catch err retryCount s =
     (if err = BettingStillActive \<and> retryCount < 5
      then (s, [SetTimeout (StartFightingPhase_cb (retryCount + 1)) 2000])
      else if retryCount \<ge> 5
      then (s\<lparr>gamePhase := Idle\<rparr>,
            [Emit (PhaseChange Idle
               ''Failed to start fight phase. Please try starting a new betting round.'')])
      else (s, []))"

text \<open>
  Lines 573--628, one call. \<open>started\<close> is the result of the \<^verbatim>\<open>startFightPhase\<close> call,
  \<open>fetchedRound\<close> and \<open>scanned\<close> are the results of the reads of \<^verbatim>\<open>loadBettingData\<close>.
\<close>

definition startFightingPhase ::
  "nat \<Rightarrow> int \<Rightarrow> (rpc_error + unit) \<Rightarrow> (rpc_error + betting_round_account) \<Rightarrow>
   (rpc_error + (string \<times> (rpc_error + bet_account)) list) \<Rightarrow> game_state \<Rightarrow>
     game_state \<times> effect list" where
  "startFightingPhase retryCount now started fetchedRound scanned s =
     (if gamePhase s \<noteq> Betting then (s, [])
      else case started of
        Inl err \<Rightarrow>
          (let (s', fx) = startFightingPhase_catch err retryCount s
           in (s', Rpc StartFightPhase # fx))
      | Inr _ \<Rightarrow>
          (case loadBettingData fetchedRound scanned (startFightingPhase_entered now s) of
             (s2, fx, Some err) \<Rightarrow>
               (let (s', fx') = startFightingPhase_catch err retryCount s2
                in (s', Rpc StartFightPhase # fx @ fx'))
           | (s2, fx, None) \<Rightarrow>
               (startFightingPhase_timer s2,
                Rpc StartFightPhase # fx @
                [Emit (PhaseChange Fighting
                   ''Apex Gauntlet started! You have 1 minute to defeat the boss!''),
                 SetTimeout (EndFight_cb ''timeout'') (FIGHT_DURATION * 1000)])))"

text \<open>
  The call and the retries it schedules, each retry being the timer callback
  \<^verbatim>\<open>startFightingPhase(retryCount + 1)\<close>, with no other handler in between. One element of
  the list holds the inputs of one call.
\<close>

type_synonym fight_inputs =
  "int \<times> (rpc_error + unit) \<times> (rpc_error + betting_round_account) \<times>
   (rpc_error + (string \<times> (rpc_error + bet_account)) list)"

fun startFightingPhase_run ::
  "nat \<Rightarrow> fight_inputs list \<Rightarrow> game_state \<Rightarrow> game_state \<times> effect list" where
  "startFightingPhase_run retryCount [] s = (s, [])"
| "startFightingPhase_run retryCount ((now, started, fetchedRound, scanned) # rest) s =
     (let (s', fx) = startFightingPhase retryCount now started fetchedRound scanned s
      in if SetTimeout (StartFightingPhase_cb (retryCount + 1)) 2000 \<in> set fx
         then (let (s'', fx') = startFightingPhase_run (retryCount + 1) rest s'
               in (s'', fx @ fx'))
         else (s', fx))"

subsection \<open>endFight\<close>

text \<open>Line 877.\<close>

definition endFight_finish :: "game_state \<Rightarrow> game_state" where
  "endFight_finish s = s\<lparr>gamePhase := Ended\<rparr>"

text \<open>
  Lines 851--894. \<open>ended\<close> is the result of the ledger's \<^verbatim>\<open>endFight\<close> call, the next two
  inputs are those of \<^const>\<open>processPayouts\<close>. An error of either is caught and logged, and
  the phase stays as it is.
\<close>

definition endFight ::
  "string \<Rightarrow> (rpc_error + unit) \<Rightarrow> (rpc_error + betting_round_account) \<Rightarrow>
   (rpc_error + scanned_bet list) \<Rightarrow> game_state \<Rightarrow> game_state \<times> effect list" where
  "endFight reason ended fetchedRound scanned s =
     (if gamePhase s \<noteq> Fighting then (s, [])
      else
        let bossDefeated = (reason = ''defeated'' \<or> bossHP s = 0)
        in case ended of
             Inl _ \<Rightarrow> (s, [ClearTimeout, Rpc EndFight_rpc])
           | Inr _ \<Rightarrow>
               (case processPayouts fetchedRound scanned s of
                  (fx, Inl _) \<Rightarrow> (s, [ClearTimeout, Rpc EndFight_rpc] @ fx)
                | (fx, Inr _) \<Rightarrow>
                    (let s' = endFight_finish s; res = buildResults bossDefeated s'
                     in (s', [ClearTimeout, Rpc EndFight_rpc] @ fx @
                             [Emit (FightEnded Ended bossDefeated res), ExportResults res]))))"

section \<open>The server as a transition system\<close>

text \<open>
  One event is one uninterrupted stretch of a handler: a chat message (the \<^verbatim>\<open>message\<close>
  listener and \<^verbatim>\<open>GET /test\<close>), an authorised \<^verbatim>\<open>admin:reset\<close>, a bet notification, and the
  stretches of the phase functions above, which may resume in any order the event loop
  delivers them.
\<close>

datatype event =
    ChatMessage int string string int
  | AdminReset
  | BetNotification int notification
  | StartBetting int
  | BettingInitialized "rpc_error + unit" int
  | FightEntered int
  | TotalsLoaded betting_round_account
  | BetsCleared
  | BetLoaded bet_account
  | FightTimerSet
  | FightStartFailed rpc_error nat
  | FightFinished

fun step :: "config \<Rightarrow> game_state \<Rightarrow> event \<Rightarrow> game_state" where
  "step cfg s (ChatMessage now user msg ts) = fst (handleChatMessage cfg now user msg ts s)"
| "step cfg s AdminReset = fst (resetGame cfg s)"
| "step cfg s (BetNotification now b) = fst (bet_notification now b s)"
| "step cfg s (StartBetting now) = fst (startBettingPhase_begin cfg now s)"
| "step cfg s (BettingInitialized r now) = fst (startBettingPhase_resume r now s)"
| "step cfg s (FightEntered now) = startFightingPhase_entered now s"
| "step cfg s (TotalsLoaded acct) = fst (loadBettingData_totals acct s)"
| "step cfg s BetsCleared = loadBettingData_clear s"
| "step cfg s (BetLoaded betData) = loadBettingData_set betData s"
| "step cfg s FightTimerSet = startFightingPhase_timer s"
| "step cfg s (FightStartFailed err retryCount) = fst (startFightingPhase_catch err retryCount s)"
| "step cfg s FightFinished = endFight_finish s"

definition run :: "config \<Rightarrow> event list \<Rightarrow> game_state" where
  "run cfg evs = foldl (step cfg) (initial_state cfg) evs"

section \<open>The engine's string functions on ASCII strings\<close>

text \<open>
  On a string of ASCII characters \<^verbatim>\<open>toUpperCase\<close> replaces each of the letters \<open>a\<close> to \<open>z\<close>
  by its capital, 32 code points below, and \<^verbatim>\<open>trim\<close> removes the white space at both
  ends (tab, line feed, vertical tab, form feed, carriage return and space). The
  scenarios below use strings of this kind only.
\<close>

definition is_ascii :: "string \<Rightarrow> bool" where
  "is_ascii s = list_all (\<lambda>c. (of_char c :: nat) < 128) s"

definition ascii_toUpperCase_char :: "char \<Rightarrow> char" where
  "ascii_toUpperCase_char c =
     (let n = (of_char c :: nat) in if 97 \<le> n \<and> n \<le> 122 then char_of (n - 32) else c)"

definition ascii_toUpperCase :: "string \<Rightarrow> string" where
  "ascii_toUpperCase s = map ascii_toUpperCase_char s"

definition is_space :: "char \<Rightarrow> bool" where
  "is_space c = ((of_char c :: nat) \<in> {9, 10, 11, 12, 13, 32})"

definition ascii_trim :: "string \<Rightarrow> string" where
  "ascii_trim s = rev (dropWhile is_space (rev (dropWhile is_space s)))"

section \<open>The keyword rule in the words of the specification\<close>

text \<open>
  The rule of the specification, for a given notion \<open>ci k m\<close> of ``the keyword \<open>k\<close> is a
  case-insensitive substring of the message \<open>m\<close>''.
\<close>

datatype chat_effect = Damage nat | Heal nat | Ignore

definition spec_hasKeyword :: "(string \<Rightarrow> string \<Rightarrow> bool) \<Rightarrow> string list \<Rightarrow> string \<Rightarrow> bool" where
  "spec_hasKeyword ci ks m = list_ex (\<lambda>k. ci k m) ks"

definition spec_effect ::
  "(string \<Rightarrow> string \<Rightarrow> bool) \<Rightarrow> string list \<Rightarrow> string list \<Rightarrow> string \<Rightarrow> chat_effect" where
  "spec_effect ci triggerSet healSet m =
     (let hasHit = spec_hasKeyword ci triggerSet m; hasHeal = spec_hasKeyword ci healSet m
      in if hasHit \<and> \<not> hasHeal then Damage 1
         else if hasHeal \<and> \<not> hasHit then Heal 1
         else Ignore)"

text \<open>
  Two notions of it. For arbitrary strings letter case is what the engine's case mapping
  says it is: the keyword is a case-insensitive substring when its upper-case form occurs
  in the upper-case form of the message.
\<close>

definition ci_substring_upper :: "(string \<Rightarrow> string) \<Rightarrow> string \<Rightarrow> string \<Rightarrow> bool" where
  "ci_substring_upper upper k m = sublist (upper k) (upper m)"

text \<open>
  For ASCII strings there is a notion that refers to no case mapping. Two characters are
  the same up to case when they are equal or are the small and the capital form of one of
  the 26 letters; two strings are equal up to case when they have the same length and
  their characters are the same up to case, position by position; and a keyword is a
  case-insensitive substring of a message when some contiguous piece of the message
  equals it up to case.
\<close>

definition letters :: "(char \<times> char) list" where
  "letters = zip ''abcdefghijklmnopqrstuvwxyz'' ''ABCDEFGHIJKLMNOPQRSTUVWXYZ''"

definition same_letter :: "char \<Rightarrow> char \<Rightarrow> bool" where
  "same_letter a b = (a = b \<or> (a, b) \<in> set letters \<or> (b, a) \<in> set letters)"

definition eq_ignoring_case :: "string \<Rightarrow> string \<Rightarrow> bool" where
  "eq_ignoring_case u v = list_all2 same_letter u v"

definition ci_substring_letters :: "string \<Rightarrow> string \<Rightarrow> bool" where
  "ci_substring_letters k m = list_ex (\<lambda>w. eq_ignoring_case w k) (sublists m)"

text \<open>
  How \<^const>\<open>handleChatMessage\<close> treats a delta: below zero it is damage of magnitude
  \<^verbatim>\<open>Math.abs(delta)\<close>, zero returns early, above zero it is a heal.
\<close>

definition effect_of_delta :: "int \<Rightarrow> chat_effect" where
  "effect_of_delta d =
     (if d < 0 then Damage (nat \<bar>d\<bar>) else if d = 0 then Ignore else Heal (nat \<bar>d\<bar>))"

section \<open>Invariants and measures\<close>

definition hp_in_range :: "config \<Rightarrow> game_state \<Rightarrow> bool" where
  "hp_in_range cfg s \<longleftrightarrow> 0 \<le> bossHP s \<and> bossHP s \<le> INITIAL_HP cfg"

definition hits_consistent :: "game_state \<Rightarrow> bool" where
  "hits_consistent s \<longleftrightarrow>
     totalHits s = sum_list (map snd (userHits s)) \<and>
     totalHits s = int (length (filter (\<lambda>e. delta e = - 1) (chronological s)))"

text \<open>The retries among the effects: the timers that call \<^verbatim>\<open>startFightingPhase\<close> again.\<close>

fun is_retry :: "effect \<Rightarrow> bool" where
  "is_retry (SetTimeout (StartFightingPhase_cb k) d) = True"
| "is_retry _ = False"

definition count_retries :: "effect list \<Rightarrow> nat" where
  "count_retries fx = length (filter is_retry fx)"

definition failed_msg :: string where
  "failed_msg = ''Failed to start fight phase. Please try starting a new betting round.''"

text \<open>Inputs of a call whose \<^verbatim>\<open>startFightPhase\<close> fails with \<^verbatim>\<open>BettingStillActive\<close>.\<close>

definition still_active :: "fight_inputs \<Rightarrow> bool" where
  "still_active i = (fst (snd i) = Inl BettingStillActive)"

text \<open>The exact integer payout the settlement formula denotes.\<close>

definition exact_prizeShare :: "int \<Rightarrow> int \<Rightarrow> int \<Rightarrow> int \<Rightarrow> int" where
  "exact_prizeShare l feePct w amount = ((l - (l * feePct) div 100) * amount) div w"

definition exact_totalPayout :: "int \<Rightarrow> int \<Rightarrow> int \<Rightarrow> int \<Rightarrow> int" where
  "exact_totalPayout l feePct w amount = amount + exact_prizeShare l feePct w amount"

text \<open>
  The range in which the doubles of a settlement are exact: the loser pool, its product
  with the fee percentage, the product of prize pool and bet, and the payout are all
  below \<open>2\<^sup>5\<^sup>3\<close> in magnitude.
\<close>

definition exact_range :: "int \<Rightarrow> int \<Rightarrow> int \<Rightarrow> int \<Rightarrow> bool" where
  "exact_range l feePct w amount \<longleftrightarrow>
     l < 2 ^ 53 \<and> l * feePct < 2 ^ 53 \<and>
     \<bar>(l - (l * feePct) div 100) * amount\<bar> < 2 ^ 53 \<and>
     \<bar>exact_totalPayout l feePct w amount\<bar> < 2 ^ 53"

text \<open>The payouts a settlement reports; none when it returns early or throws.\<close>

definition reported ::
  "effect list \<times> (rpc_error + payout_result list option) \<Rightarrow> payout_result list" where
  "reported res = (case snd res of Inr (Some rs) \<Rightarrow> rs | _ \<Rightarrow> [])"

section \<open>A round with three hit points\<close>

text \<open>
  The configuration of the end-to-end scenarios: \<^verbatim>\<open>INITIAL_HP=3\<close>,
  \<^verbatim>\<open>TRIGGER_KEYWORDS="HIT"\<close>, \<^verbatim>\<open>HEAL_KEYWORDS="HEAL"\<close>.
\<close>

definition cfg3 :: config where
  "cfg3 = \<lparr>TRIGGER_KEYWORDS = [''HIT''], HEAL_KEYWORDS = [''HEAL''], INITIAL_HP = 3,
            FEE_PERCENTAGE = 5, toUpperCase = ascii_toUpperCase\<rparr>"

definition betting3_events :: "event list" where
  "betting3_events = [StartBetting 1000, BettingInitialized (Inr ()) 1010]"

definition round3_events :: "event list" where
  "round3_events = betting3_events @ [FightEntered 61010, FightTimerSet]"

definition hit :: "string \<Rightarrow> int \<Rightarrow> event" where
  "hit user t = ChatMessage t user ''HIT'' t"

definition betting3 :: game_state where
  "betting3 = run cfg3 betting3_events"

definition round3 :: game_state where
  "round3 = run cfg3 round3_events"

definition round3_hp2 :: game_state where
  "round3_hp2 = run cfg3 (round3_events @ [hit ''alice'' 61011])"

definition round3_hp1 :: game_state where
  "round3_hp1 = run cfg3 (round3_events @ [hit ''alice'' 61011, hit ''bob'' 61012])"

definition round3_hp0 :: game_state where
  "round3_hp0 =
     run cfg3 (round3_events @ [hit ''alice'' 61011, hit ''bob'' 61012, hit ''alice'' 61013])"

text \<open>
  A bet notification for the wallet \<open>W1\<close>: 1.07 SOL on the boss's death. The amount is the
  double nearest to 1.07, which is what \<^verbatim>\<open>JSON.parse\<close> makes of \<^verbatim>\<open>1.07\<close>.
\<close>

definition note_death :: notification where
  "note_death = \<lparr>n_walletAddress = ''W1'', n_username = ''alice'',
                  n_amount = to_double (107 / 100),
                  n_prediction = Some ''death'', n_signature = Some ''sig1''\<rparr>"

text \<open>
  A settlement with one winner: 100 SOL lost by the other side, a fee of 5 percent, and
  a single winning bet of 1.000000029 SOL.
\<close>

definition acct_one_winner :: betting_round_account where
  "acct_one_winner = \<lparr>a_roundId = 1000, a_totalDeathBets = 1000000029,
                       a_totalSurvivalBets = 100000000000, a_totalBetsCount = 2,
                       a_bossDefeated = True,
                       a_feePercentage = 5\<rparr>"

definition bet_winner :: bet_account where
  "bet_winner = \<lparr>b_bettor = ''W1'', b_username = ''alice'', b_amount = 1000000029,
                  b_prediction = ''death'', b_timestamp = 1005\<rparr>"

definition bet_loser :: bet_account where
  "bet_loser = \<lparr>b_bettor = ''W2'', b_username = ''bob'', b_amount = 100000000000,
                 b_prediction = ''survival'', b_timestamp = 1006\<rparr>"

definition scan_one_winner :: "scanned_bet list" where
  "scan_one_winner = [(''B1'', Inr bet_winner, Inr ''tx1''), (''B2'', Inr bet_loser, Inr ''tx2'')]"

text \<open>
  A settlement within the exact range: the boss survived, 0.03 SOL lost on death, winners
  with 0.01 SOL and 0.02 SOL on survival, the second of which cannot be claimed, and one
  account that cannot be read.
\<close>

definition acct_small :: betting_round_account where
  "acct_small = \<lparr>a_roundId = 1000, a_totalDeathBets = 30000000,
                  a_totalSurvivalBets = 30000000, a_totalBetsCount = 3,
                  a_bossDefeated = False, a_feePercentage = 5\<rparr>"

definition small_alice :: bet_account where
  "small_alice = \<lparr>b_bettor = ''W1'', b_username = ''alice'', b_amount = 10000000,
                   b_prediction = ''survival'', b_timestamp = 1005\<rparr>"

definition small_bob :: bet_account where
  "small_bob = \<lparr>b_bettor = ''W2'', b_username = ''bob'', b_amount = 30000000,
                 b_prediction = ''death'', b_timestamp = 1006\<rparr>"

definition small_carol :: bet_account where
  "small_carol = \<lparr>b_bettor = ''W3'', b_username = ''carol'', b_amount = 20000000,
                   b_prediction = ''survival'', b_timestamp = 1007\<rparr>"

definition scan_small :: "scanned_bet list" where
  "scan_small =
     [(''B1'', Inr small_alice, Inr ''tx1''), (''B2'', Inr small_bob, Inr ''tx2''),
      (''B3'', Inr small_carol, Inl OtherError), (''B4'', Inl OtherError, Inr ''tx4'')]"

text \<open>A round nobody won: the boss survived and every bet was on its death.\<close>

definition acct_no_winner :: betting_round_account where
  "acct_no_winner = \<lparr>a_roundId = 1000, a_totalDeathBets = 30000000,
                      a_totalSurvivalBets = 0, a_totalBetsCount = 1,
                      a_bossDefeated = False, a_feePercentage = 5\<rparr>"

section \<open>Facts about the concrete round\<close>

lemma run_snoc: "run cfg (evs @ [ev]) = step cfg (run cfg evs) ev"
  by (simp add: run_def)

lemma cfg3_hp: "INITIAL_HP cfg3 = 3"
  by (simp add: cfg3_def)

lemma cfg3_upper: "toUpperCase cfg3 = ascii_toUpperCase"
  by (simp add: cfg3_def)

lemma cfg3_parsed:
  "TRIGGER_KEYWORDS cfg3 = parse_keywords ascii_trim ''HIT''"
  "HEAL_KEYWORDS cfg3 = parse_keywords ascii_trim ''HEAL''"
  by (simp_all add: cfg3_def parse_keywords_def ascii_trim_def is_space_def)

lemma cfg3_ascii:
  "list_all is_ascii (TRIGGER_KEYWORDS cfg3)" "list_all is_ascii (HEAL_KEYWORDS cfg3)"
  by (simp_all add: cfg3_def is_ascii_def)

lemma parse_keywords_example:
  "parse_keywords ascii_trim '' HIT, ,hit,'' = [''HIT'', ''hit'']"
  by (simp add: parse_keywords_def ascii_trim_def is_space_def)

lemma delta_HIT: "message_delta cfg3 ''HIT'' = - 1"
  by code_simp

lemma delta_HEAL: "message_delta cfg3 ''HEAL'' = 1"
  by code_simp

lemma delta_hit_lower: "message_delta cfg3 ''hit'' = - 1"
  by code_simp

lemma delta_heal_mixed: "message_delta cfg3 ''Heal'' = 1"
  by code_simp

lemma delta_many_hits: "message_delta cfg3 ''hit, HIT and hit'' = - 1"
  by code_simp

lemma delta_both: "message_delta cfg3 ''hit and HEAL'' = 0"
  by code_simp

section \<open>The keyword interpreter\<close>

lemma map_split:
  "map f xs = ys @ zs \<Longrightarrow> \<exists>us vs. xs = us @ vs \<and> map f us = ys \<and> map f vs = zs"
  by (metis append_take_drop_id drop_map take_map append_eq_conv_conj)

lemma letters_upt:
  "letters = map (\<lambda>n. (char_of n, char_of (n - 32))) [97..<123]"
  by (simp add: letters_def upt_rec_numeral char_of_def bit_Suc_0_iff)

lemma letters_iff:
  "(c, d) \<in> set letters \<longleftrightarrow>
     97 \<le> (of_char c :: nat) \<and> (of_char c :: nat) \<le> 122 \<and> d = char_of ((of_char c :: nat) - 32)"
proof
  assume "(c, d) \<in> set letters"
  then have "(c, d) \<in> (\<lambda>n. (char_of n, char_of (n - 32))) ` {97..<123::nat}"
    by (simp only: letters_upt set_map set_upt)
  then obtain n :: nat where n: "97 \<le> n" "n < 123" "c = char_of n" "d = char_of (n - 32)"
    by (auto simp only: image_iff atLeastLessThan_iff prod.inject)
  from n(2) have "n mod 256 = n" by simp
  then have "(of_char c :: nat) = n" by (simp only: n(3) of_char_of)
  then show "97 \<le> (of_char c :: nat) \<and> (of_char c :: nat) \<le> 122 \<and>
      d = char_of ((of_char c :: nat) - 32)"
    using n(1,2,4) by simp
next
  assume a: "97 \<le> (of_char c :: nat) \<and> (of_char c :: nat) \<le> 122 \<and>
      d = char_of ((of_char c :: nat) - 32)"
  have 1: "(c, d) = (\<lambda>n. (char_of n, char_of (n - 32))) (of_char c :: nat)"
    using a by simp
  have 2: "(of_char c :: nat) \<in> {97..<123}" using a by simp
  have "(c, d) \<in> (\<lambda>n. (char_of n, char_of (n - 32))) ` {97..<123::nat}"
    using 1 2 by (rule image_eqI)
  then show "(c, d) \<in> set letters"
    by (simp only: letters_upt set_map set_upt)
qed

lemma same_letter_iff:
  "same_letter a b \<longleftrightarrow> ascii_toUpperCase_char a = ascii_toUpperCase_char b"
proof -
  define m where "m = (of_char a :: nat)"
  define n where "n = (of_char b :: nat)"
  have a: "a = char_of m" and b: "b = char_of n" by (simp_all add: m_def n_def)
  have lt: "m < 256" "n < 256" by (simp_all add: m_def n_def)
  have inj: "char_of i = (char_of j :: char) \<longleftrightarrow> i = j" if "i < 256" "j < 256" for i j :: nat
    using that by (metis of_char_of mod_less)
  have ab: "a = b \<longleftrightarrow> m = n" unfolding a b using lt by (rule inj)
  have l1: "(a, b) \<in> set letters \<longleftrightarrow> 97 \<le> m \<and> m \<le> 122 \<and> n = m - 32"
  proof -
    have "m - 32 < 256" using lt by simp
    then have "b = char_of (m - 32) \<longleftrightarrow> n = m - 32" unfolding b using lt(2) inj by blast
    then show ?thesis by (simp only: letters_iff m_def [symmetric])
  qed
  have l2: "(b, a) \<in> set letters \<longleftrightarrow> 97 \<le> n \<and> n \<le> 122 \<and> m = n - 32"
  proof -
    have "n - 32 < 256" using lt by simp
    then have "a = char_of (n - 32) \<longleftrightarrow> m = n - 32" unfolding a using lt(1) inj by blast
    then show ?thesis by (simp only: letters_iff n_def [symmetric])
  qed
  define u where "u k = (if 97 \<le> k \<and> k \<le> 122 then k - 32 else k)" for k :: nat
  have ua: "ascii_toUpperCase_char a = char_of (u m)"
    by (simp add: ascii_toUpperCase_char_def Let_def u_def m_def)
  have ub: "ascii_toUpperCase_char b = char_of (u n)"
    by (simp add: ascii_toUpperCase_char_def Let_def u_def n_def)
  have "u m < 256" "u n < 256" using lt by (auto simp: u_def)
  then have r: "ascii_toUpperCase_char a = ascii_toUpperCase_char b \<longleftrightarrow> u m = u n"
    unfolding ua ub by (rule inj)
  have "m = n \<or> (97 \<le> m \<and> m \<le> 122 \<and> n = m - 32) \<or> (97 \<le> n \<and> n \<le> 122 \<and> m = n - 32)
        \<longleftrightarrow> u m = u n"
    unfolding u_def by auto
  then show ?thesis by (simp only: same_letter_def ab l1 l2 r)
qed

lemma eq_ignoring_case_iff:
  "eq_ignoring_case u v \<longleftrightarrow> ascii_toUpperCase u = ascii_toUpperCase v"
  unfolding eq_ignoring_case_def ascii_toUpperCase_def
  by (induction u arbitrary: v) (auto simp: list_all2_Cons1 same_letter_iff)

lemma ci_substring_letters_iff:
  "ci_substring_letters k m \<longleftrightarrow> sublist (ascii_toUpperCase k) (ascii_toUpperCase m)"
proof
  assume "ci_substring_letters k m"
  then obtain w where w: "sublist w m" "ascii_toUpperCase w = ascii_toUpperCase k"
    by (auto simp: ci_substring_letters_def list_ex_iff eq_ignoring_case_iff)
  then obtain ps ss where "m = ps @ w @ ss" by (auto simp: sublist_def)
  then have "ascii_toUpperCase m =
      ascii_toUpperCase ps @ ascii_toUpperCase k @ ascii_toUpperCase ss"
    using w(2) by (simp add: ascii_toUpperCase_def)
  then show "sublist (ascii_toUpperCase k) (ascii_toUpperCase m)" by (auto simp: sublist_def)
next
  assume "sublist (ascii_toUpperCase k) (ascii_toUpperCase m)"
  then obtain ps ss where
    "map ascii_toUpperCase_char m = ps @ map ascii_toUpperCase_char k @ ss"
    by (auto simp: sublist_def ascii_toUpperCase_def)
  from map_split [OF this]
  obtain us vs where 1: "m = us @ vs"
    "map ascii_toUpperCase_char vs = map ascii_toUpperCase_char k @ ss"
    by blast
  from map_split [OF 1(2)]
  obtain w ws where 2: "vs = w @ ws" "map ascii_toUpperCase_char w = map ascii_toUpperCase_char k"
    by blast
  have "sublist w m" using 1 2 by (auto simp: sublist_def)
  then show "ci_substring_letters k m" using 2
    by (auto simp: ci_substring_letters_def list_ex_iff eq_ignoring_case_iff
        ascii_toUpperCase_def)
qed

lemma parse_keywords_nonempty: "[] \<notin> set (parse_keywords trim csv)"
  by (simp add: parse_keywords_def)

lemma some_keyword_spec:
  "[] \<notin> set ks \<Longrightarrow>
   some_keyword upper ks (upper m) \<longleftrightarrow> spec_hasKeyword (ci_substring_upper upper) ks m"
  by (simp add: some_keyword_def spec_hasKeyword_def list_ex_iff ci_substring_upper_def) metis

lemma spec_hasKeyword_ascii:
  assumes "\<And>s. is_ascii s \<Longrightarrow> upper s = ascii_toUpperCase s"
    and "is_ascii m" and "list_all is_ascii ks"
  shows "spec_hasKeyword (ci_substring_upper upper) ks m \<longleftrightarrow>
         spec_hasKeyword ci_substring_letters ks m"
proof -
  have "ci_substring_upper upper k m \<longleftrightarrow> ci_substring_letters k m" if "k \<in> set ks" for k
  proof -
    have "is_ascii k" using that assms(3) by (simp add: list_all_iff)
    then show ?thesis
      by (simp add: ci_substring_upper_def ci_substring_letters_iff assms(1) assms(2))
  qed
  then show ?thesis by (simp add: spec_hasKeyword_def list_ex_iff)
qed

lemma message_delta_cases:
  "message_delta cfg msg = - 1 \<or> message_delta cfg msg = 0 \<or> message_delta cfg msg = 1"
  by (simp add: message_delta_def)

lemma handleChatMessage_ignore:
  "message_delta cfg msg = 0 \<Longrightarrow> handleChatMessage cfg now user msg ts s = (s, [])"
  by (simp add: handleChatMessage_def)

lemma handleChatMessage_idle:
  "gamePhase s \<noteq> Fighting \<Longrightarrow> handleChatMessage cfg now user msg ts s = (s, [])"
  by (simp add: handleChatMessage_def)

lemma handleChatMessage_damage:
  "gamePhase s = Fighting \<Longrightarrow> message_delta cfg msg = - 1 \<Longrightarrow>
   fst (handleChatMessage cfg now user msg ts s) =
     s\<lparr>totalHits := totalHits s + 1,
       userHits := AList.update user (get_or_zero (userHits s) user + 1) (userHits s),
       lastHitter := Some user,
       chronological := chronological s @
         [\<lparr>username = user, message = msg, timestamp = ts, delta = - 1\<rparr>],
       bossHP := max 0 (min (INITIAL_HP cfg) (bossHP s - 1))\<rparr>"
  by (simp add: handleChatMessage_def Let_def)

lemma handleChatMessage_heal:
  "gamePhase s = Fighting \<Longrightarrow> message_delta cfg msg = 1 \<Longrightarrow>
   fst (handleChatMessage cfg now user msg ts s) =
     s\<lparr>chronological := chronological s @
         [\<lparr>username = user, message = msg, timestamp = ts, delta = 1\<rparr>],
       bossHP := max 0 (min (INITIAL_HP cfg) (bossHP s + 1))\<rparr>"
  by (simp add: handleChatMessage_def Let_def)

section \<open>Evaluation of the concrete round\<close>

lemma betting3_eq:
  "betting3 = \<lparr>gamePhase = Betting, currentRoundId = 1000, bossHP = 3, userHits = [],
      chronological = [], lastHitter = None, totalHits = 0, bettingEndTime = Some 61010,
      fightEndTime = None, gameTimer = Some (StartFightingPhase_cb 0),
      bettingRoundPDA = Some (BettingRoundPDA 1000), escrowPDA = Some (EscrowPDA 1000),
      onChainBets = [], totalDeathBets = Num 0, totalSurvivalBets = Num 0\<rparr>"
  by (simp add: betting3_def betting3_events_def run_def cfg3_hp initial_state_def
      startBettingPhase_begin_def resetGame_def startBettingPhase_resume_def
      BETTING_DURATION_def Let_def)

lemma round3_eq:
  "round3 = \<lparr>gamePhase = Fighting, currentRoundId = 1000, bossHP = 3, userHits = [],
      chronological = [], lastHitter = None, totalHits = 0, bettingEndTime = Some 61010,
      fightEndTime = Some 121010, gameTimer = Some (EndFight_cb ''timeout''),
      bettingRoundPDA = Some (BettingRoundPDA 1000), escrowPDA = Some (EscrowPDA 1000),
      onChainBets = [], totalDeathBets = Num 0, totalSurvivalBets = Num 0\<rparr>"
proof -
  have "round3 = startFightingPhase_timer (startFightingPhase_entered 61010 betting3)"
    by (simp add: round3_def round3_events_def betting3_def run_def)
  then show ?thesis
    by (simp add: betting3_eq startFightingPhase_entered_def startFightingPhase_timer_def
        FIGHT_DURATION_def)
qed

lemma round3_hp2_step: "round3_hp2 = step cfg3 round3 (hit ''alice'' 61011)"
  by (simp add: round3_hp2_def round3_def run_def)

lemma round3_hp1_step: "round3_hp1 = step cfg3 round3_hp2 (hit ''bob'' 61012)"
  by (simp add: round3_hp1_def round3_hp2_def run_def)

lemma round3_hp0_step: "round3_hp0 = step cfg3 round3_hp1 (hit ''alice'' 61013)"
  by (simp add: round3_hp0_def round3_hp1_def run_def)

lemma round3_hp2_eq:
  "round3_hp2 = round3\<lparr>totalHits := 1, userHits := [(''alice'', 1)],
      lastHitter := Some ''alice'',
      chronological :=
        [\<lparr>username = ''alice'', message = ''HIT'', timestamp = 61011, delta = - 1\<rparr>],
      bossHP := 2\<rparr>"
  by (simp add: round3_hp2_step hit_def handleChatMessage_damage delta_HIT round3_eq
      get_or_zero_def cfg3_hp)

lemma round3_hp1_eq:
  "round3_hp1 = round3\<lparr>totalHits := 2, userHits := [(''alice'', 1), (''bob'', 1)],
      lastHitter := Some ''bob'',
      chronological :=
        [\<lparr>username = ''alice'', message = ''HIT'', timestamp = 61011, delta = - 1\<rparr>,
         \<lparr>username = ''bob'', message = ''HIT'', timestamp = 61012, delta = - 1\<rparr>],
      bossHP := 1\<rparr>"
  by (simp add: round3_hp1_step hit_def handleChatMessage_damage delta_HIT round3_hp2_eq
      round3_eq get_or_zero_def cfg3_hp)

lemma round3_hp0_eq:
  "round3_hp0 = round3\<lparr>totalHits := 3, userHits := [(''alice'', 2), (''bob'', 1)],
      lastHitter := Some ''alice'',
      chronological :=
        [\<lparr>username = ''alice'', message = ''HIT'', timestamp = 61011, delta = - 1\<rparr>,
         \<lparr>username = ''bob'', message = ''HIT'', timestamp = 61012, delta = - 1\<rparr>,
         \<lparr>username = ''alice'', message = ''HIT'', timestamp = 61013, delta = - 1\<rparr>],
      bossHP := 0\<rparr>"
  by (simp add: round3_hp0_step hit_def handleChatMessage_damage delta_HIT round3_hp1_eq
      round3_eq get_or_zero_def cfg3_hp)

lemma round3_hp0_pdas:
  "bettingRoundPDA round3_hp0 = Some (BettingRoundPDA 1000)"
  "escrowPDA round3_hp0 = Some (EscrowPDA 1000)"
  by (simp_all add: round3_hp0_eq round3_eq)

lemma endFight_timeout_at_zero:
  "endFight ''timeout'' (Inr ()) (Inr acct_no_winner) (Inr scan_small) round3_hp0 =
     (round3_hp0\<lparr>gamePhase := Ended\<rparr>,
      [ClearTimeout, Rpc EndFight_rpc, Rpc ClaimFees,
       Emit (FightEnded Ended True (buildResults True (round3_hp0\<lparr>gamePhase := Ended\<rparr>))),
       ExportResults (buildResults True (round3_hp0\<lparr>gamePhase := Ended\<rparr>))])"
proof -
  have p: "processPayouts (Inr acct_no_winner) (Inr scan_small) round3_hp0 =
     ([Rpc ClaimFees], Inr None)"
    by (simp add: processPayouts_def round3_hp0_pdas totalWinnerBets_def acct_no_winner_def
        claimFees_def toNumber_def Let_def)
  have f: "gamePhase round3_hp0 = Fighting" "bossHP round3_hp0 = 0"
    by (simp_all add: round3_hp0_eq round3_eq)
  show ?thesis
    by (simp add: endFight_def p f endFight_finish_def Let_def)
qed

section \<open>Claims about the keyword interpreter and the fight\<close>

text \<open>
  C2. The keyword lists are what lines 49--50 make of a comma-separated string. For every
  message, the delta the server computes is the effect of the specification's rule:
  damage of exactly 1 when some trigger keyword and no heal keyword is a case-insensitive
  substring of the message, a heal of exactly 1 in the converse case, and otherwise the
  message is ignored and the handler returns the state unchanged with no broadcast. In the
  fighting phase a damage moves the hit points one step down and the hit count one up, a
  heal moves the hit points one step up, whatever the number of occurrences. Letter case
  is compared through the engine's upper-case forms; for ASCII messages and keywords, on
  which every engine maps the letters \<open>a\<close> to \<open>z\<close> to their capitals, this is the rule with
  case-insensitivity spelled out letter by letter.
\<close>

theorem keyword_rule:
  assumes "TRIGGER_KEYWORDS cfg = parse_keywords trim t"
    and "HEAL_KEYWORDS cfg = parse_keywords trim h"
  shows "effect_of_delta (message_delta cfg msg) =
           spec_effect (ci_substring_upper (toUpperCase cfg))
             (TRIGGER_KEYWORDS cfg) (HEAL_KEYWORDS cfg) msg
         \<and> ((\<forall>s. is_ascii s \<longrightarrow> toUpperCase cfg s = ascii_toUpperCase s) \<and> is_ascii msg \<and>
              list_all is_ascii (TRIGGER_KEYWORDS cfg) \<and> list_all is_ascii (HEAL_KEYWORDS cfg) \<longrightarrow>
              effect_of_delta (message_delta cfg msg) =
                spec_effect ci_substring_letters (TRIGGER_KEYWORDS cfg) (HEAL_KEYWORDS cfg) msg)
         \<and> (spec_effect (ci_substring_upper (toUpperCase cfg))
               (TRIGGER_KEYWORDS cfg) (HEAL_KEYWORDS cfg) msg = Ignore \<longrightarrow>
              handleChatMessage cfg now user msg ts s = (s, []))
         \<and> (gamePhase s = Fighting \<and>
              spec_effect (ci_substring_upper (toUpperCase cfg))
                (TRIGGER_KEYWORDS cfg) (HEAL_KEYWORDS cfg) msg = Damage 1 \<longrightarrow>
              bossHP (fst (handleChatMessage cfg now user msg ts s)) =
                max 0 (min (INITIAL_HP cfg) (bossHP s - 1)) \<and>
              totalHits (fst (handleChatMessage cfg now user msg ts s)) = totalHits s + 1)
         \<and> (gamePhase s = Fighting \<and>
              spec_effect (ci_substring_upper (toUpperCase cfg))
                (TRIGGER_KEYWORDS cfg) (HEAL_KEYWORDS cfg) msg = Heal 1 \<longrightarrow>
              bossHP (fst (handleChatMessage cfg now user msg ts s)) =
                max 0 (min (INITIAL_HP cfg) (bossHP s + 1)) \<and>
              totalHits (fst (handleChatMessage cfg now user msg ts s)) = totalHits s)"
proof -
  let ?up = "ci_substring_upper (toUpperCase cfg)"
  have ne: "[] \<notin> set (TRIGGER_KEYWORDS cfg)" "[] \<notin> set (HEAL_KEYWORDS cfg)"
    by (simp_all add: assms parse_keywords_nonempty)
  have hit: "hasHitKeyword cfg msg \<longleftrightarrow> spec_hasKeyword ?up (TRIGGER_KEYWORDS cfg) msg"
    using ne(1) by (simp add: hasHitKeyword_def some_keyword_spec)
  have heal: "hasHealKeyword cfg msg \<longleftrightarrow> spec_hasKeyword ?up (HEAL_KEYWORDS cfg) msg"
    using ne(2) by (simp add: hasHealKeyword_def some_keyword_spec)
  have eff: "effect_of_delta (message_delta cfg msg) =
           spec_effect ?up (TRIGGER_KEYWORDS cfg) (HEAL_KEYWORDS cfg) msg"
    by (auto simp: effect_of_delta_def message_delta_def spec_effect_def hit heal Let_def)
  have asc: "effect_of_delta (message_delta cfg msg) =
           spec_effect ci_substring_letters (TRIGGER_KEYWORDS cfg) (HEAL_KEYWORDS cfg) msg"
    if "\<forall>s. is_ascii s \<longrightarrow> toUpperCase cfg s = ascii_toUpperCase s" and "is_ascii msg"
      and "list_all is_ascii (TRIGGER_KEYWORDS cfg)" and "list_all is_ascii (HEAL_KEYWORDS cfg)"
  proof -
    have u: "is_ascii s \<Longrightarrow> toUpperCase cfg s = ascii_toUpperCase s" for s
      using that(1) by blast
    have "spec_hasKeyword ?up (TRIGGER_KEYWORDS cfg) msg \<longleftrightarrow>
          spec_hasKeyword ci_substring_letters (TRIGGER_KEYWORDS cfg) msg"
      using u that(2) that(3) by (rule spec_hasKeyword_ascii)
    moreover have "spec_hasKeyword ?up (HEAL_KEYWORDS cfg) msg \<longleftrightarrow>
          spec_hasKeyword ci_substring_letters (HEAL_KEYWORDS cfg) msg"
      using u that(2) that(4) by (rule spec_hasKeyword_ascii)
    ultimately show ?thesis by (simp add: eff spec_effect_def)
  qed
  have d0: "message_delta cfg msg = 0"
    if "spec_effect ?up (TRIGGER_KEYWORDS cfg) (HEAL_KEYWORDS cfg) msg = Ignore"
    using that eff message_delta_cases [of cfg msg] by (auto simp: effect_of_delta_def)
  have dm: "message_delta cfg msg = - 1"
    if "spec_effect ?up (TRIGGER_KEYWORDS cfg) (HEAL_KEYWORDS cfg) msg = Damage 1"
    using that eff message_delta_cases [of cfg msg] by (auto simp: effect_of_delta_def)
  have dp: "message_delta cfg msg = 1"
    if "spec_effect ?up (TRIGGER_KEYWORDS cfg) (HEAL_KEYWORDS cfg) msg = Heal 1"
    using that eff message_delta_cases [of cfg msg] by (auto simp: effect_of_delta_def)
  have 3: "handleChatMessage cfg now user msg ts s = (s, [])"
    if "spec_effect ?up (TRIGGER_KEYWORDS cfg) (HEAL_KEYWORDS cfg) msg = Ignore"
    using d0 [OF that] by (rule handleChatMessage_ignore)
  have 4: "bossHP (fst (handleChatMessage cfg now user msg ts s)) =
                max 0 (min (INITIAL_HP cfg) (bossHP s - 1)) \<and>
              totalHits (fst (handleChatMessage cfg now user msg ts s)) = totalHits s + 1"
    if "gamePhase s = Fighting"
      and "spec_effect ?up (TRIGGER_KEYWORDS cfg) (HEAL_KEYWORDS cfg) msg = Damage 1"
    using that(1) dm [OF that(2)] by (simp add: handleChatMessage_damage)
  have 5: "bossHP (fst (handleChatMessage cfg now user msg ts s)) =
                max 0 (min (INITIAL_HP cfg) (bossHP s + 1)) \<and>
              totalHits (fst (handleChatMessage cfg now user msg ts s)) = totalHits s"
    if "gamePhase s = Fighting"
      and "spec_effect ?up (TRIGGER_KEYWORDS cfg) (HEAL_KEYWORDS cfg) msg = Heal 1"
    using that(1) dp [OF that(2)] by (simp add: handleChatMessage_heal)
  from eff asc 3 4 5 show ?thesis by blast
qed

theorem keyword_rule_witness:
  "TRIGGER_KEYWORDS cfg3 = parse_keywords ascii_trim ''HIT'' \<and>
   HEAL_KEYWORDS cfg3 = parse_keywords ascii_trim ''HEAL'' \<and>
   is_ascii ''hit'' \<and> is_ascii ''Heal'' \<and> is_ascii ''hit, HIT and hit'' \<and>
   is_ascii ''hit and HEAL'' \<and>
   message_delta cfg3 ''hit'' = - 1 \<and>
   spec_effect ci_substring_letters (TRIGGER_KEYWORDS cfg3) (HEAL_KEYWORDS cfg3) ''hit'' =
     Damage 1 \<and>
   spec_effect ci_substring_letters (TRIGGER_KEYWORDS cfg3) (HEAL_KEYWORDS cfg3)
     ''hit, HIT and hit'' = Damage 1 \<and>
   spec_effect ci_substring_letters (TRIGGER_KEYWORDS cfg3) (HEAL_KEYWORDS cfg3) ''Heal'' =
     Heal 1 \<and>
   spec_effect ci_substring_letters (TRIGGER_KEYWORDS cfg3) (HEAL_KEYWORDS cfg3)
     ''hit and HEAL'' = Ignore \<and>
   handleChatMessage cfg3 61011 ''mallory'' ''hit and HEAL'' 61011 round3 = (round3, []) \<and>
   bossHP (fst (handleChatMessage cfg3 61011 ''alice'' ''hit'' 61011 round3)) = 2 \<and>
   totalHits (fst (handleChatMessage cfg3 61011 ''alice'' ''hit, HIT and hit'' 61011 round3)) = 1 \<and>
   bossHP (fst (handleChatMessage cfg3 61011 ''eve'' ''Heal'' 61011 round3_hp1)) = 2"
proof -
  note k = cfg3_parsed
  let ?up = "ci_substring_upper (toUpperCase cfg3)"
  let ?T = "TRIGGER_KEYWORDS cfg3"
  let ?H = "HEAL_KEYWORDS cfg3"
  have u: "\<forall>s. is_ascii s \<longrightarrow> toUpperCase cfg3 s = ascii_toUpperCase s"
    by (simp add: cfg3_upper)
  have a: "is_ascii ''hit''" "is_ascii ''Heal''" "is_ascii ''hit, HIT and hit''"
    "is_ascii ''hit and HEAL''"
    by (simp_all add: is_ascii_def)
  have ph: "gamePhase round3 = Fighting" "bossHP round3 = 3" "totalHits round3 = 0"
    "gamePhase round3_hp1 = Fighting" "bossHP round3_hp1 = 1"
    by (simp_all add: round3_hp1_eq round3_eq)
  have e: "effect_of_delta (message_delta cfg3 ''hit'') = Damage 1"
    "effect_of_delta (message_delta cfg3 ''hit, HIT and hit'') = Damage 1"
    "effect_of_delta (message_delta cfg3 ''Heal'') = Heal 1"
    "effect_of_delta (message_delta cfg3 ''hit and HEAL'') = Ignore"
    by (simp_all add: delta_hit_lower delta_many_hits delta_heal_mixed delta_both
        effect_of_delta_def)
  note t1 = keyword_rule [OF k, where msg = "''hit''" and now = 61011
      and user = "''alice''" and ts = 61011 and s = round3]
  note t2 = keyword_rule [OF k, where msg = "''hit, HIT and hit''" and now = 61011
      and user = "''alice''" and ts = 61011 and s = round3]
  note t3 = keyword_rule [OF k, where msg = "''Heal''" and now = 61011
      and user = "''eve''" and ts = 61011 and s = round3_hp1]
  note t4 = keyword_rule [OF k, where msg = "''hit and HEAL''" and now = 61011
      and user = "''mallory''" and ts = 61011 and s = round3]
  have u1: "spec_effect ?up ?T ?H ''hit'' = Damage 1"
    using t1 [THEN conjunct1] e(1) by simp
  have u2: "spec_effect ?up ?T ?H ''hit, HIT and hit'' = Damage 1"
    using t2 [THEN conjunct1] e(2) by simp
  have u3: "spec_effect ?up ?T ?H ''Heal'' = Heal 1"
    using t3 [THEN conjunct1] e(3) by simp
  have u4: "spec_effect ?up ?T ?H ''hit and HEAL'' = Ignore"
    using t4 [THEN conjunct1] e(4) by simp
  have "effect_of_delta (message_delta cfg3 ''hit'') =
      spec_effect ci_substring_letters ?T ?H ''hit''"
    using t1 u a(1) cfg3_ascii by blast
  then have 1: "spec_effect ci_substring_letters ?T ?H ''hit'' = Damage 1"
    using e(1) by simp
  have "effect_of_delta (message_delta cfg3 ''hit, HIT and hit'') =
      spec_effect ci_substring_letters ?T ?H ''hit, HIT and hit''"
    using t2 u a(3) cfg3_ascii by blast
  then have 2: "spec_effect ci_substring_letters ?T ?H ''hit, HIT and hit'' = Damage 1"
    using e(2) by simp
  have "effect_of_delta (message_delta cfg3 ''Heal'') =
      spec_effect ci_substring_letters ?T ?H ''Heal''"
    using t3 u a(2) cfg3_ascii by blast
  then have 3: "spec_effect ci_substring_letters ?T ?H ''Heal'' = Heal 1"
    using e(3) by simp
  have "effect_of_delta (message_delta cfg3 ''hit and HEAL'') =
      spec_effect ci_substring_letters ?T ?H ''hit and HEAL''"
    using t4 u a(4) cfg3_ascii by blast
  then have 4: "spec_effect ci_substring_letters ?T ?H ''hit and HEAL'' = Ignore"
    using e(4) by simp
  have 5: "handleChatMessage cfg3 61011 ''mallory'' ''hit and HEAL'' 61011 round3 = (round3, [])"
    using t4 u4 by blast
  have "bossHP (fst (handleChatMessage cfg3 61011 ''alice'' ''hit'' 61011 round3)) =
      max 0 (min (INITIAL_HP cfg3) (bossHP round3 - 1))"
    using t1 u1 ph(1) by blast
  then have 6: "bossHP (fst (handleChatMessage cfg3 61011 ''alice'' ''hit'' 61011 round3)) = 2"
    by (simp add: cfg3_hp ph)
  have "totalHits (fst (handleChatMessage cfg3 61011 ''alice'' ''hit, HIT and hit'' 61011
      round3)) = totalHits round3 + 1"
    using t2 u2 ph(1) by blast
  then have 7: "totalHits (fst (handleChatMessage cfg3 61011 ''alice'' ''hit, HIT and hit'' 61011
      round3)) = 1"
    by (simp add: ph)
  have "bossHP (fst (handleChatMessage cfg3 61011 ''eve'' ''Heal'' 61011 round3_hp1)) =
      max 0 (min (INITIAL_HP cfg3) (bossHP round3_hp1 + 1))"
    using t3 u3 ph(4) by blast
  then have 8: "bossHP (fst (handleChatMessage cfg3 61011 ''eve'' ''Heal'' 61011 round3_hp1)) = 2"
    by (simp add: cfg3_hp ph)
  from k a delta_hit_lower 1 2 3 4 5 6 7 8 show ?thesis by blast
qed

section \<open>Invariants of every run\<close>

lemma fst_resetGame:
  "fst (resetGame cfg s) =
     s\<lparr>gamePhase := Idle, currentRoundId := 0, bossHP := INITIAL_HP cfg,
       userHits := [], chronological := [], lastHitter := None, totalHits := 0,
       onChainBets := [], totalDeathBets := Num 0, totalSurvivalBets := Num 0,
       bettingEndTime := None, fightEndTime := None, bettingRoundPDA := None,
       escrowPDA := None, gameTimer := None\<rparr>"
  by (simp add: resetGame_def Let_def)

lemma handleChatMessage_hp:
  "0 \<le> INITIAL_HP cfg \<Longrightarrow> hp_in_range cfg s \<Longrightarrow>
   hp_in_range cfg (fst (handleChatMessage cfg now user msg ts s))"
  by (auto simp: handleChatMessage_def Let_def hp_in_range_def)

lemma step_hp:
  assumes "0 \<le> INITIAL_HP cfg" and "hp_in_range cfg s"
  shows "hp_in_range cfg (step cfg s ev)"
proof (cases ev)
  case (ChatMessage now user msg ts)
  then show ?thesis using assms by (simp add: handleChatMessage_hp)
next
  case AdminReset
  then show ?thesis using assms by (simp add: fst_resetGame hp_in_range_def)
next
  case (BetNotification now b)
  then show ?thesis using assms by (simp add: bet_notification_def Let_def hp_in_range_def)
next
  case (StartBetting now)
  then show ?thesis using assms
    by (simp add: startBettingPhase_begin_def resetGame_def Let_def hp_in_range_def)
next
  case (BettingInitialized r now)
  then show ?thesis using assms
    by (simp add: startBettingPhase_resume_def Let_def hp_in_range_def split: sum.splits)
next
  case (FightStartFailed err retryCount)
  then show ?thesis using assms
    by (simp add: startFightingPhase_catch_def hp_in_range_def)
next
  case (TotalsLoaded acct)
  then show ?thesis using assms
    by (simp add: loadBettingData_totals_def Let_def hp_in_range_def split: sum.splits)
next
  case (BetLoaded betData)
  then show ?thesis using assms
    by (simp add: loadBettingData_set_def hp_in_range_def split: sum.splits)
qed (use assms in \<open>simp_all add: hp_in_range_def startFightingPhase_entered_def
      loadBettingData_clear_def startFightingPhase_timer_def endFight_finish_def\<close>)

lemma foldl_step_hp:
  "0 \<le> INITIAL_HP cfg \<Longrightarrow> hp_in_range cfg s \<Longrightarrow> hp_in_range cfg (foldl (step cfg) s evs)"
  by (induction evs arbitrary: s) (simp_all add: step_hp)

lemma run_hp: "0 \<le> INITIAL_HP cfg \<Longrightarrow> hp_in_range cfg (run cfg evs)"
  unfolding run_def by (rule foldl_step_hp) (simp_all add: hp_in_range_def initial_state_def)

text \<open>
  C3. For a configured \<^verbatim>\<open>INITIAL_HP\<close> that is not negative, after every sequence of events
  (chat messages, resets, bet notifications and the stretches of the phase transitions,
  in any order) the boss's hit points lie between 0 and \<^verbatim>\<open>INITIAL_HP\<close>, the \<^verbatim>\<open>maxHP\<close> the
  server reports.
\<close>

theorem boss_hp_bounds:
  "0 \<le> INITIAL_HP cfg \<Longrightarrow>
   0 \<le> bossHP (run cfg evs) \<and> bossHP (run cfg evs) \<le> INITIAL_HP cfg"
  using run_hp [of cfg evs] by (simp add: hp_in_range_def)

theorem boss_hp_bounds_witness:
  "0 \<le> INITIAL_HP cfg3 \<and> 0 \<le> bossHP round3_hp0 \<and> bossHP round3_hp0 \<le> INITIAL_HP cfg3 \<and>
   bossHP round3_hp0 = 0"
  using boss_hp_bounds [of cfg3 "round3_events @
      [hit ''alice'' 61011, hit ''bob'' 61012, hit ''alice'' 61013]"]
  by (simp add: cfg3_hp round3_hp0_def [symmetric]) (simp add: round3_hp0_eq)

lemma sum_list_update:
  "sum_list (map snd (AList.update k (get_or_zero m k + d) m)) = sum_list (map snd m) + d"
  by (induction m) (auto simp: get_or_zero_def)

lemma handleChatMessage_hits:
  assumes "hits_consistent s"
  shows "hits_consistent (fst (handleChatMessage cfg now user msg ts s))"
proof (cases "gamePhase s = Fighting")
  case False
  then show ?thesis using assms by (simp add: handleChatMessage_idle)
next
  case True
  from message_delta_cases [of cfg msg] show ?thesis
  proof (elim disjE)
    assume "message_delta cfg msg = - 1"
    then show ?thesis using assms True
      by (simp add: handleChatMessage_damage hits_consistent_def sum_list_update)
  next
    assume "message_delta cfg msg = 0"
    then show ?thesis using assms by (simp add: handleChatMessage_ignore)
  next
    assume "message_delta cfg msg = 1"
    then show ?thesis using assms True
      by (simp add: handleChatMessage_heal hits_consistent_def)
  qed
qed

lemma step_hits:
  assumes "hits_consistent s"
  shows "hits_consistent (step cfg s ev)"
proof (cases ev)
  case (ChatMessage now user msg ts)
  then show ?thesis using assms by (simp add: handleChatMessage_hits)
next
  case AdminReset
  then show ?thesis by (simp add: fst_resetGame hits_consistent_def)
next
  case (BetNotification now b)
  then show ?thesis using assms by (simp add: bet_notification_def Let_def hits_consistent_def)
next
  case (StartBetting now)
  then show ?thesis using assms
    by (simp add: startBettingPhase_begin_def resetGame_def Let_def hits_consistent_def)
next
  case (BettingInitialized r now)
  then show ?thesis using assms
    by (simp add: startBettingPhase_resume_def Let_def hits_consistent_def split: sum.splits)
next
  case (FightStartFailed err retryCount)
  then show ?thesis using assms
    by (simp add: startFightingPhase_catch_def hits_consistent_def)
next
  case (TotalsLoaded acct)
  then show ?thesis using assms
    by (simp add: loadBettingData_totals_def Let_def hits_consistent_def split: sum.splits)
next
  case (BetLoaded betData)
  then show ?thesis using assms
    by (simp add: loadBettingData_set_def hits_consistent_def split: sum.splits)
qed (use assms in \<open>simp_all add: hits_consistent_def startFightingPhase_entered_def
      loadBettingData_clear_def startFightingPhase_timer_def endFight_finish_def\<close>)

lemma foldl_step_hits:
  "hits_consistent s \<Longrightarrow> hits_consistent (foldl (step cfg) s evs)"
  by (induction evs arbitrary: s) (simp_all add: step_hits)

text \<open>
  C4. After every sequence of events \<^verbatim>\<open>totalHits\<close> is the sum of the values of \<^verbatim>\<open>userHits\<close>
  and the number of entries of \<^verbatim>\<open>chronological\<close> whose delta is \<open>-1\<close>; and every single
  event (damage, heal, reset, any stretch of a phase change) keeps the two equalities
  when they hold before it.
\<close>

theorem total_hits_consistent:
  "totalHits (run cfg evs) = sum_list (map snd (userHits (run cfg evs))) \<and>
   totalHits (run cfg evs) =
     int (length (filter (\<lambda>e. delta e = - 1) (chronological (run cfg evs)))) \<and>
   (hits_consistent s \<longrightarrow> hits_consistent (step cfg s ev))"
proof -
  have "hits_consistent (initial_state cfg)"
    by (simp add: hits_consistent_def initial_state_def)
  then have "hits_consistent (run cfg evs)"
    unfolding run_def by (rule foldl_step_hits)
  then have 1: "totalHits (run cfg evs) = sum_list (map snd (userHits (run cfg evs)))"
    and 2: "totalHits (run cfg evs) =
      int (length (filter (\<lambda>e. delta e = - 1) (chronological (run cfg evs))))"
    by (simp_all add: hits_consistent_def)
  have 3: "hits_consistent s \<longrightarrow> hits_consistent (step cfg s ev)"
    using step_hits [of s cfg ev] by blast
  from 1 2 3 show ?thesis by blast
qed

theorem total_hits_consistent_witness:
  "hits_consistent round3_hp1 \<and> totalHits round3_hp1 = 2 \<and>
   hits_consistent (step cfg3 round3_hp1 (hit ''alice'' 61013)) \<and>
   hits_consistent (step cfg3 round3_hp1 AdminReset)"
proof -
  have h: "hits_consistent round3_hp1"
    by (simp add: hits_consistent_def round3_hp1_eq round3_eq)
  from h total_hits_consistent [where cfg = cfg3 and evs = "[]" and s = round3_hp1
      and ev = "hit ''alice'' 61013"]
  have 1: "hits_consistent (step cfg3 round3_hp1 (hit ''alice'' 61013))" by blast
  from h total_hits_consistent [where cfg = cfg3 and evs = "[]" and s = round3_hp1
      and ev = AdminReset]
  have 2: "hits_consistent (step cfg3 round3_hp1 AdminReset)" by blast
  from h 1 2 show ?thesis by (simp add: round3_hp1_eq)
qed

section \<open>Heals, and damage followed by a heal\<close>

text \<open>
  C7. In a fighting-phase state reached by any sequence of events, with \<^verbatim>\<open>INITIAL_HP\<close> not
  negative, a message that is a heal changes two fields only: one entry with delta \<open>+1\<close>
  is appended to \<^verbatim>\<open>chronological\<close>, and \<^verbatim>\<open>bossHP\<close> becomes \<open>min(maxHP, bossHP + 1)\<close>. Every
  other field, \<^verbatim>\<open>userHits\<close>, \<^verbatim>\<open>lastHitter\<close> and \<^verbatim>\<open>totalHits\<close> among them, is as before.
\<close>

theorem heal_frame:
  assumes "0 \<le> INITIAL_HP cfg"
    and "gamePhase (run cfg evs) = Fighting"
    and "message_delta cfg msg = 1"
  shows "fst (handleChatMessage cfg now user msg ts (run cfg evs)) =
           (run cfg evs)
             \<lparr>chronological := chronological (run cfg evs) @
                 [\<lparr>username = user, message = msg, timestamp = ts, delta = 1\<rparr>],
              bossHP := min (INITIAL_HP cfg) (bossHP (run cfg evs) + 1)\<rparr>"
proof -
  have "0 \<le> bossHP (run cfg evs)"
    using run_hp [OF assms(1), of evs] by (simp add: hp_in_range_def)
  then have "max 0 (min (INITIAL_HP cfg) (bossHP (run cfg evs) + 1)) =
             min (INITIAL_HP cfg) (bossHP (run cfg evs) + 1)"
    using assms(1) by simp
  then show ?thesis
    using assms(2,3) by (simp add: handleChatMessage_heal)
qed

theorem heal_frame_witness:
  "0 \<le> INITIAL_HP cfg3 \<and> gamePhase round3_hp1 = Fighting \<and> message_delta cfg3 ''HEAL'' = 1 \<and>
   fst (handleChatMessage cfg3 61013 ''eve'' ''HEAL'' 61013 round3_hp1) =
     round3_hp1
       \<lparr>chronological := chronological round3_hp1 @
           [\<lparr>username = ''eve'', message = ''HEAL'', timestamp = 61013, delta = 1\<rparr>],
        bossHP := 2\<rparr>"
proof -
  have 1: "0 \<le> INITIAL_HP cfg3" by (simp add: cfg3_hp)
  have 2: "gamePhase (run cfg3 (round3_events @ [hit ''alice'' 61011, hit ''bob'' 61012])) =
           Fighting"
    by (simp add: round3_hp1_def [symmetric] round3_hp1_eq round3_eq)
  from heal_frame [OF 1 2 delta_HEAL, where now = 61013 and user = "''eve''" and ts = 61013]
    1 2 show ?thesis
    by (simp add: round3_hp1_def [symmetric] delta_HEAL cfg3_hp) (simp add: round3_hp1_eq)
qed

lemma damage_then_heal:
  assumes "gamePhase s = Fighting" and "0 \<le> bossHP s" and "bossHP s \<le> INITIAL_HP cfg"
    and "message_delta cfg m1 = - 1" and "message_delta cfg m2 = 1"
  shows "fst (handleChatMessage cfg now2 u2 m2 t2 (fst (handleChatMessage cfg now1 u1 m1 t1 s))) =
     s\<lparr>totalHits := totalHits s + 1,
       userHits := AList.update u1 (get_or_zero (userHits s) u1 + 1) (userHits s),
       lastHitter := Some u1,
       chronological := chronological s @
         [\<lparr>username = u1, message = m1, timestamp = t1, delta = - 1\<rparr>,
          \<lparr>username = u2, message = m2, timestamp = t2, delta = 1\<rparr>],
       bossHP := (if bossHP s = 0 then min (INITIAL_HP cfg) 1 else bossHP s)\<rparr>"
  using assms by (simp add: handleChatMessage_damage handleChatMessage_heal max_def min_def)

text \<open>
  C8, as stated, fails: with 2 of 3 hit points, strictly between 0 and \<^verbatim>\<open>maxHP\<close>, a damage
  followed by a heal does not give the state back (the hit is counted and both messages
  are logged); and at \<^verbatim>\<open>bossHP = maxHP\<close> the hit points do come back to \<^verbatim>\<open>maxHP\<close>, so no clamp
  makes a difference there.
\<close>

theorem damage_then_heal_counterexample:
  "gamePhase round3_hp2 = Fighting \<and> 0 < bossHP round3_hp2 \<and>
   bossHP round3_hp2 < INITIAL_HP cfg3 \<and>
   fst (handleChatMessage cfg3 61013 ''eve'' ''HEAL'' 61013
         (fst (handleChatMessage cfg3 61012 ''bob'' ''HIT'' 61012 round3_hp2))) \<noteq> round3_hp2 \<and>
   bossHP round3 = INITIAL_HP cfg3 \<and>
   bossHP (fst (handleChatMessage cfg3 61013 ''eve'' ''HEAL'' 61013
         (fst (handleChatMessage cfg3 61012 ''bob'' ''HIT'' 61012 round3)))) = bossHP round3"
proof -
  have "totalHits (fst (handleChatMessage cfg3 61013 ''eve'' ''HEAL'' 61013
         (fst (handleChatMessage cfg3 61012 ''bob'' ''HIT'' 61012 round3_hp2)))) = 2"
    by (simp add: handleChatMessage_damage handleChatMessage_heal delta_HIT delta_HEAL
        round3_hp2_eq round3_eq)
  moreover have "totalHits round3_hp2 = 1" by (simp add: round3_hp2_eq)
  ultimately have "fst (handleChatMessage cfg3 61013 ''eve'' ''HEAL'' 61013
         (fst (handleChatMessage cfg3 61012 ''bob'' ''HIT'' 61012 round3_hp2))) \<noteq> round3_hp2"
    by auto
  moreover have "bossHP (fst (handleChatMessage cfg3 61013 ''eve'' ''HEAL'' 61013
         (fst (handleChatMessage cfg3 61012 ''bob'' ''HIT'' 61012 round3)))) = bossHP round3"
    by (simp add: handleChatMessage_damage handleChatMessage_heal delta_HIT delta_HEAL
        round3_eq cfg3_hp)
  ultimately show ?thesis by (simp add: round3_hp2_eq round3_eq cfg3_hp)
qed

text \<open>
  C8, amended. In a fighting-phase state reached by any sequence of events, with
  \<^verbatim>\<open>INITIAL_HP\<close> not negative, a damage followed by a heal leaves \<^verbatim>\<open>bossHP\<close> as it was when
  it was above 0, and takes it from 0 to \<open>min(maxHP, 1)\<close>. The rest of the state is not
  restored: \<^verbatim>\<open>totalHits\<close> and the damager's \<^verbatim>\<open>userHits\<close> have grown by one, \<^verbatim>\<open>lastHitter\<close> is
  the damager, and \<^verbatim>\<open>chronological\<close> has the two entries appended. No other field
  changes.
\<close>

theorem damage_then_heal_amended:
  assumes "0 \<le> INITIAL_HP cfg" and "gamePhase (run cfg evs) = Fighting"
    and "message_delta cfg m1 = - 1" and "message_delta cfg m2 = 1"
  shows "fst (handleChatMessage cfg now2 u2 m2 t2
               (fst (handleChatMessage cfg now1 u1 m1 t1 (run cfg evs)))) =
           (run cfg evs)
             \<lparr>totalHits := totalHits (run cfg evs) + 1,
              userHits := AList.update u1 (get_or_zero (userHits (run cfg evs)) u1 + 1)
                            (userHits (run cfg evs)),
              lastHitter := Some u1,
              chronological := chronological (run cfg evs) @
                [\<lparr>username = u1, message = m1, timestamp = t1, delta = - 1\<rparr>,
                 \<lparr>username = u2, message = m2, timestamp = t2, delta = 1\<rparr>],
              bossHP := (if bossHP (run cfg evs) = 0 then min (INITIAL_HP cfg) 1
                         else bossHP (run cfg evs))\<rparr>"
  using run_hp [OF assms(1), of evs] assms(2-4)
  by (intro damage_then_heal) (simp_all add: hp_in_range_def)

theorem damage_then_heal_amended_witness:
  "0 \<le> INITIAL_HP cfg3 \<and> gamePhase round3_hp0 = Fighting \<and>
   message_delta cfg3 ''HIT'' = - 1 \<and> message_delta cfg3 ''HEAL'' = 1 \<and>
   bossHP round3_hp0 = 0 \<and>
   bossHP (fst (handleChatMessage cfg3 61015 ''eve'' ''HEAL'' 61015
         (fst (handleChatMessage cfg3 61014 ''bob'' ''HIT'' 61014 round3_hp0)))) = 1 \<and>
   totalHits (fst (handleChatMessage cfg3 61015 ''eve'' ''HEAL'' 61015
         (fst (handleChatMessage cfg3 61014 ''bob'' ''HIT'' 61014 round3_hp0)))) = 4"
proof -
  have 1: "0 \<le> INITIAL_HP cfg3" by (simp add: cfg3_hp)
  have 2: "gamePhase (run cfg3 (round3_events @
      [hit ''alice'' 61011, hit ''bob'' 61012, hit ''alice'' 61013])) = Fighting"
    by (simp add: round3_hp0_def [symmetric] round3_hp0_eq round3_eq)
  from damage_then_heal_amended [OF 1 2 delta_HIT delta_HEAL,
      where ?now2.0 = 61015 and ?u2.0 = "''eve''" and ?t2.0 = 61015
        and ?now1.0 = 61014 and ?u1.0 = "''bob''" and ?t1.0 = 61014] 1 2
  show ?thesis
    by (simp add: round3_hp0_def [symmetric] delta_HIT delta_HEAL cfg3_hp)
       (simp add: round3_hp0_eq)
qed

text \<open>
  C1. The claim is what the specification asks for; the server does not do it. In the
  round with three hit points the third hit brings \<^verbatim>\<open>bossHP\<close> from 1 to 0, and all the
  handler does is broadcast the update: the phase is still fighting, the fight timer is
  still set, and neither \<^verbatim>\<open>clearTimeout\<close> nor the ledger's \<^verbatim>\<open>endFight\<close>, the first two
  effects of the fight-end flow, is among its effects. A further hit is then accepted: it
  is appended to \<^verbatim>\<open>chronological\<close> and counted in \<^verbatim>\<open>totalHits\<close>. The fight ends when the
  timer calls \<^verbatim>\<open>endFight('timeout')\<close>.
\<close>

theorem defeat_does_not_end_fight:
  "bossHP round3_hp1 = 1 \<and> gamePhase round3_hp1 = Fighting \<and>
   handleChatMessage cfg3 61013 ''alice'' ''HIT'' 61013 round3_hp1 =
     (round3_hp0,
      [Emit (Update 0 3 [(''alice'', 2), (''bob'', 1)] (Some ''alice'')
               \<lparr>username = ''alice'', message = ''HIT'', timestamp = 61013, delta = - 1\<rparr>
               59997)]) \<and>
   bossHP round3_hp0 = 0 \<and> gamePhase round3_hp0 = Fighting \<and>
   gameTimer round3_hp0 = Some (EndFight_cb ''timeout'') \<and>
   chronological (step cfg3 round3_hp0 (hit ''carol'' 61014)) =
     chronological round3_hp0 @
       [\<lparr>username = ''carol'', message = ''HIT'', timestamp = 61014, delta = - 1\<rparr>] \<and>
   totalHits (step cfg3 round3_hp0 (hit ''carol'' 61014)) = 4 \<and>
   gamePhase (fst (endFight ''timeout'' (Inr ()) (Inr acct_no_winner) (Inr scan_small)
                     round3_hp0)) = Ended \<and>
   take 2 (snd (endFight ''timeout'' (Inr ()) (Inr acct_no_winner) (Inr scan_small)
                  round3_hp0)) = [ClearTimeout, Rpc EndFight_rpc]"
proof -
  have "handleChatMessage cfg3 61013 ''alice'' ''HIT'' 61013 round3_hp1 =
     (round3_hp0,
      [Emit (Update 0 3 [(''alice'', 2), (''bob'', 1)] (Some ''alice'')
               \<lparr>username = ''alice'', message = ''HIT'', timestamp = 61013, delta = - 1\<rparr>
               59997)])"
    by (simp add: round3_hp0_eq round3_hp1_eq round3_eq handleChatMessage_def delta_HIT
        Let_def get_or_zero_def getTop_def slice0_def time_remaining_def cfg3_hp)
  moreover have "bossHP round3_hp1 = 1" "gamePhase round3_hp1 = Fighting"
    by (simp_all add: round3_hp1_eq round3_eq)
  moreover have z: "bossHP round3_hp0 = 0" "gamePhase round3_hp0 = Fighting"
    "gameTimer round3_hp0 = Some (EndFight_cb ''timeout'')"
    by (simp_all add: round3_hp0_eq round3_eq)
  moreover have "chronological (step cfg3 round3_hp0 (hit ''carol'' 61014)) =
     chronological round3_hp0 @
       [\<lparr>username = ''carol'', message = ''HIT'', timestamp = 61014, delta = - 1\<rparr>]"
    by (simp add: hit_def handleChatMessage_damage delta_HIT z)
  moreover have "totalHits (step cfg3 round3_hp0 (hit ''carol'' 61014)) = 4"
    by (simp add: hit_def handleChatMessage_damage delta_HIT z) (simp add: round3_hp0_eq)
  moreover have "gamePhase (fst (endFight ''timeout'' (Inr ()) (Inr acct_no_winner)
      (Inr scan_small) round3_hp0)) = Ended"
    "take 2 (snd (endFight ''timeout'' (Inr ()) (Inr acct_no_winner) (Inr scan_small)
      round3_hp0)) = [ClearTimeout, Rpc EndFight_rpc]"
    by (simp_all add: endFight_timeout_at_zero)
  ultimately show ?thesis by blast
qed

section \<open>Retries of startFightingPhase\<close>

lemma loadBettingData_no_retry:
  "loadBettingData fr sc s = (s', fx, e) \<Longrightarrow> filter is_retry fx = []"
  by (auto simp: loadBettingData_def Let_def split: if_splits sum.splits prod.splits
      option.splits)

lemma catch_effects:
  "snd (startFightingPhase_catch err r s) =
     (if err = BettingStillActive \<and> r < 5 then [SetTimeout (StartFightingPhase_cb (r + 1)) 2000]
      else if r \<ge> 5 then [Emit (PhaseChange Idle failed_msg)] else [])"
  by (simp add: startFightingPhase_catch_def failed_msg_def)

lemma catch_state:
  "fst (startFightingPhase_catch err r s) =
     (if err = BettingStillActive \<and> r < 5 then s
      else if r \<ge> 5 then s\<lparr>gamePhase := Idle\<rparr> else s)"
  by (simp add: startFightingPhase_catch_def)

lemma call_failed:
  assumes "gamePhase s = Betting"
  shows "startFightingPhase r now (Inl err) fr sc s =
           (fst (startFightingPhase_catch err r s),
            Rpc StartFightPhase # snd (startFightingPhase_catch err r s))"
  using assms by (simp add: startFightingPhase_def case_prod_beta)

lemma loadBettingData_phase:
  "loadBettingData fr sc s = (s', fx, e) \<Longrightarrow> gamePhase s' = gamePhase s"
proof -
  have loop: "gamePhase (loadBettingData_loop xs t) = gamePhase t" for xs t
    by (induction xs t rule: loadBettingData_loop.induct)
       (auto simp: loadBettingData_set_def split: sum.splits)
  have totals: "gamePhase t' = gamePhase t"
    if "loadBettingData_totals acct t = (t', e')" for acct t t' e'
    using that by (auto simp: loadBettingData_totals_def Let_def split: sum.splits)
  assume "loadBettingData fr sc s = (s', fx, e)"
  then show ?thesis
    by (auto simp: loadBettingData_def Let_def loop loadBettingData_clear_def
        dest: totals split: if_splits sum.splits prod.splits option.splits)
qed

lemma call_succeeded:
  assumes "gamePhase s = Betting"
    and "snd (snd (loadBettingData fr sc (startFightingPhase_entered now s))) = None"
  shows "gamePhase (fst (startFightingPhase r now (Inr ()) fr sc s)) = Fighting \<and>
         count_retries (snd (startFightingPhase r now (Inr ()) fr sc s)) = 0"
proof -
  obtain s2 fx e where l: "loadBettingData fr sc (startFightingPhase_entered now s) = (s2, fx, e)"
    by (cases "loadBettingData fr sc (startFightingPhase_entered now s)") auto
  then have e: "e = None" using assms(2) by simp
  have nr: "filter is_retry fx = []" using loadBettingData_no_retry [OF l] .
  have ph: "gamePhase s2 = Fighting"
    using loadBettingData_phase [OF l] by (simp add: startFightingPhase_entered_def)
  show ?thesis using assms(1) l e nr ph
    by (simp add: startFightingPhase_def startFightingPhase_timer_def count_retries_def)
qed

lemma call_retries:
  "filter is_retry (snd (startFightingPhase r now st fr sc s)) =
     (if SetTimeout (StartFightingPhase_cb (r + 1)) 2000
           \<in> set (snd (startFightingPhase r now st fr sc s))
      then [SetTimeout (StartFightingPhase_cb (r + 1)) 2000] else [])
   \<and> (SetTimeout (StartFightingPhase_cb (r + 1)) 2000
         \<in> set (snd (startFightingPhase r now st fr sc s)) \<longrightarrow> r < 5)"
proof (cases "gamePhase s = Betting")
  case False
  then show ?thesis by (simp add: startFightingPhase_def)
next
  case True
  show ?thesis
  proof (cases st)
    case (Inl err)
    then show ?thesis using True
      by (simp add: call_failed catch_effects)
  next
    case (Inr u)
    obtain s2 fx e where l: "loadBettingData fr sc (startFightingPhase_entered now s) = (s2, fx, e)"
      by (cases "loadBettingData fr sc (startFightingPhase_entered now s)") auto
    have nr: "filter is_retry fx = []" using loadBettingData_no_retry [OF l] .
    then have nr': "SetTimeout (StartFightingPhase_cb (Suc r)) 2000 \<notin> set fx"
      by (auto simp: filter_empty_conv)
    show ?thesis
    proof (cases e)
      case None
      then show ?thesis using True Inr l nr nr'
        by (simp add: startFightingPhase_def)
    next
      case (Some err)
      then show ?thesis using True Inr l nr nr'
        by (simp add: startFightingPhase_def catch_effects case_prod_beta)
    qed
  qed
qed

lemma run_retries_le:
  "r \<le> 5 \<Longrightarrow> count_retries (snd (startFightingPhase_run r ins s)) \<le> 5 - r"
proof (induction ins arbitrary: r s)
  case Nil
  then show ?case by (simp add: count_retries_def)
next
  case (Cons i ins)
  obtain now st fr sc where i: "i = (now, st, fr, sc)" by (cases i) auto
  obtain s' fx where c: "startFightingPhase r now st fr sc s = (s', fx)"
    by (cases "startFightingPhase r now st fr sc s") auto
  from call_retries [of r now st fr sc s] c
  have f: "filter is_retry fx =
     (if SetTimeout (StartFightingPhase_cb (r + 1)) 2000 \<in> set fx
      then [SetTimeout (StartFightingPhase_cb (r + 1)) 2000] else [])"
    and lt: "SetTimeout (StartFightingPhase_cb (r + 1)) 2000 \<in> set fx \<Longrightarrow> r < 5"
    by simp_all
  show ?case
  proof (cases "SetTimeout (StartFightingPhase_cb (r + 1)) 2000 \<in> set fx")
    case False
    then show ?thesis using i c f by (simp add: count_retries_def)
  next
    case True
    then have "r < 5" using lt by simp
    then have "count_retries (snd (startFightingPhase_run (r + 1) ins s')) \<le> 5 - (r + 1)"
      using Cons.IH [of "r + 1" s'] by simp
    then show ?thesis using i c f True \<open>r < 5\<close>
      by (simp add: count_retries_def case_prod_beta)
  qed
qed

lemma run_all_still_active:
  assumes "gamePhase s = Betting" and "list_all still_active ins" and "r \<le> 5"
    and "length ins \<ge> 6 - r"
  shows "gamePhase (fst (startFightingPhase_run r ins s)) = Idle \<and>
         Emit (PhaseChange Idle failed_msg) \<in> set (snd (startFightingPhase_run r ins s)) \<and>
         count_retries (snd (startFightingPhase_run r ins s)) = 5 - r"
  using assms
proof (induction ins arbitrary: r s)
  case Nil
  then show ?case by simp
next
  case (Cons i ins)
  obtain now fr sc where i: "i = (now, Inl BettingStillActive, fr, sc)"
    using Cons.prems(2) by (cases i) (auto simp: still_active_def)
  show ?case
  proof (cases "r < 5")
    case True
    have c: "startFightingPhase r now (Inl BettingStillActive) fr sc s =
          (s, [Rpc StartFightPhase, SetTimeout (StartFightingPhase_cb (r + 1)) 2000])"
      using True Cons.prems(1) by (simp add: call_failed catch_effects catch_state)
    have "gamePhase (fst (startFightingPhase_run (r + 1) ins s)) = Idle \<and>
         Emit (PhaseChange Idle failed_msg) \<in> set (snd (startFightingPhase_run (r + 1) ins s)) \<and>
         count_retries (snd (startFightingPhase_run (r + 1) ins s)) = 5 - (r + 1)"
      using Cons.prems True by (intro Cons.IH) auto
    then show ?thesis using i c True
      by (simp add: count_retries_def case_prod_beta)
  next
    case False
    then have r: "r = 5" using Cons.prems(3) by simp
    have c: "startFightingPhase r now (Inl BettingStillActive) fr sc s =
          (s\<lparr>gamePhase := Idle\<rparr>, [Rpc StartFightPhase, Emit (PhaseChange Idle failed_msg)])"
      using r Cons.prems(1) by (simp add: call_failed catch_effects catch_state)
    show ?thesis using i c r by (simp add: count_retries_def)
  qed
qed

text \<open>
  C6. A call of \<^verbatim>\<open>startFightingPhase\<close> in the betting phase whose \<^verbatim>\<open>startFightPhase\<close> fails
  schedules a retry, 2000 ms later and with the retry count one higher, exactly when the
  error is \<^verbatim>\<open>BettingStillActive\<close> and fewer than 5 retries have been made; with 5 retries
  made it sets the phase to idle and broadcasts a \<^verbatim>\<open>phase_change\<close> with a message; any
  other failure changes nothing. A call that goes through enters the fighting phase and
  schedules no retry. A call with its retries never schedules more than 5 of
  them, and when every attempt fails with \<^verbatim>\<open>BettingStillActive\<close> it makes exactly 5 and
  ends idle, the message published.
\<close>

theorem start_fight_retry_policy:
  "(gamePhase s = Betting \<longrightarrow>
      startFightingPhase r now (Inl err) fr sc s =
        (if err = BettingStillActive \<and> r < 5
         then (s, [Rpc StartFightPhase, SetTimeout (StartFightingPhase_cb (r + 1)) 2000])
         else if r \<ge> 5
         then (s\<lparr>gamePhase := Idle\<rparr>, [Rpc StartFightPhase, Emit (PhaseChange Idle failed_msg)])
         else (s, [Rpc StartFightPhase])))
   \<and> (gamePhase s = Betting \<and>
        snd (snd (loadBettingData fr sc (startFightingPhase_entered now s))) = None \<longrightarrow>
        gamePhase (fst (startFightingPhase r now (Inr ()) fr sc s)) = Fighting \<and>
        count_retries (snd (startFightingPhase r now (Inr ()) fr sc s)) = 0)
   \<and> count_retries (snd (startFightingPhase_run 0 ins s)) \<le> 5
   \<and> (gamePhase s = Betting \<and> list_all still_active ins \<and> length ins \<ge> 6 \<longrightarrow>
        gamePhase (fst (startFightingPhase_run 0 ins s)) = Idle \<and>
        Emit (PhaseChange Idle failed_msg) \<in> set (snd (startFightingPhase_run 0 ins s)) \<and>
        count_retries (snd (startFightingPhase_run 0 ins s)) = 5)"
  using run_retries_le [of 0 ins s] run_all_still_active [of s ins 0]
    call_succeeded [of s fr sc now r]
  by (auto simp: call_failed catch_effects catch_state)

theorem start_fight_retry_policy_witness:
  "gamePhase betting3 = Betting \<and>
   startFightingPhase 2 61010 (Inl BettingStillActive) (Inr acct_small) (Inr []) betting3 =
     (betting3, [Rpc StartFightPhase, SetTimeout (StartFightingPhase_cb 3) 2000]) \<and>
   snd (snd (loadBettingData (Inr acct_small) (Inr [])
               (startFightingPhase_entered 61010 betting3))) = None \<and>
   gamePhase (fst (startFightingPhase 2 61010 (Inr ()) (Inr acct_small) (Inr []) betting3)) =
     Fighting \<and>
   list_all still_active
     (replicate 6 (61010, Inl BettingStillActive, Inr acct_small, Inr [])) \<and>
   gamePhase (fst (startFightingPhase_run 0
     (replicate 6 (61010, Inl BettingStillActive, Inr acct_small, Inr [])) betting3)) =
     Idle \<and>
   count_retries (snd (startFightingPhase_run 0
     (replicate 6 (61010, Inl BettingStillActive, Inr acct_small, Inr [])) betting3)) = 5"
proof -
  have b: "gamePhase betting3 = Betting" by (simp add: betting3_eq)
  have l: "list_all still_active
     (replicate 6 (61010, Inl BettingStillActive, Inr acct_small, Inr []))"
    by (simp add: list_all_iff still_active_def)
  have n: "snd (snd (loadBettingData (Inr acct_small) (Inr [])
               (startFightingPhase_entered 61010 betting3))) = None"
    by (simp add: loadBettingData_def loadBettingData_totals_def toNumber_def
        acct_small_def Let_def)
  from start_fight_retry_policy [where s = betting3 and r = 2 and now = 61010
      and err = BettingStillActive and fr = "Inr acct_small" and sc = "Inr []"
      and ins = "replicate 6 (61010, Inl BettingStillActive, Inr acct_small, Inr [])"]
    b l n
  show ?thesis by simp
qed

section \<open>The leaderboard\<close>

lemma getTop_nonneg:
  "0 \<le> n \<Longrightarrow> getTop n s = take (nat n) (sort_key (\<lambda>e. - snd e) (userHits s))"
  by (simp add: getTop_def slice0_def)

lemma sorted_desc:
  "sorted_wrt (\<lambda>a b. snd b \<le> snd a) (sort_key (\<lambda>e. - snd e) (xs :: (string \<times> int) list))"
  using sorted_sort_key [of "\<lambda>e. - snd e" xs] by (simp add: sorted_map)

lemma hd_sorted_desc_Max:
  assumes "(xs :: (string \<times> int) list) \<noteq> []"
  shows "snd (hd (sort_key (\<lambda>e. - snd e) xs)) = Max (snd ` set xs)"
proof -
  let ?ys = "sort_key (\<lambda>e. - snd e) xs"
  have ne: "?ys \<noteq> []" using assms by (metis length_sort length_0_conv)
  then obtain y ys where ys: "?ys = y # ys" by (cases ?ys) auto
  have "sorted_wrt (\<lambda>a b. snd b \<le> snd a) (y # ys)" using sorted_desc [of xs] ys by simp
  then have le: "\<forall>e \<in> set (y # ys). snd e \<le> snd y" by auto
  have set: "set (y # ys) = set xs" using ys by (metis set_sort)
  have "Max (snd ` set xs) = snd y"
  proof (rule Max_eqI)
    show "finite (snd ` set xs)" by simp
    show "\<And>v. v \<in> snd ` set xs \<Longrightarrow> v \<le> snd y" using le set by auto
    show "snd y \<in> snd ` set xs" using set by (metis imageI list.set_intros(1))
  qed
  then show ?thesis using ys by simp
qed

text \<open>
  C10. For every state and every \<open>n \<ge> 0\<close>, \<^verbatim>\<open>getTop(n)\<close> has at most \<open>n\<close> entries, all of them
  entries of \<^verbatim>\<open>userHits\<close>, in non-increasing order of hits; its first entry, when there is
  one, has the greatest hit count of all users. So \<^verbatim>\<open>buildResults\<close>, when anybody has
  hit, reports as \<^verbatim>\<open>topDamage\<close> the greatest hit count and as \<^verbatim>\<open>topDamageDealer\<close> a user who
  has it.
\<close>

theorem getTop_sorted:
  assumes "0 \<le> n"
  shows "length (getTop n s) \<le> nat n \<and>
         sorted_wrt (\<lambda>a b. snd b \<le> snd a) (getTop n s) \<and>
         set (getTop n s) \<subseteq> set (userHits s) \<and>
         (getTop n s \<noteq> [] \<longrightarrow> snd (hd (getTop n s)) = Max (snd ` set (userHits s))) \<and>
         (userHits s \<noteq> [] \<longrightarrow>
            r_topDamage (buildResults d s) = Max (snd ` set (userHits s)) \<and>
            (\<exists>u. r_topDamageDealer (buildResults d s) = Some u \<and>
                 (u, r_topDamage (buildResults d s)) \<in> set (userHits s)))"
proof -
  let ?ys = "sort_key (\<lambda>e. - snd e) (userHits s)"
  have g: "getTop n s = take (nat n) ?ys" using assms by (rule getTop_nonneg)
  have 1: "length (getTop n s) \<le> nat n" by (simp add: g)
  have 2: "sorted_wrt (\<lambda>a b. snd b \<le> snd a) (getTop n s)"
    unfolding g by (rule sorted_wrt_take) (rule sorted_desc)
  have 3: "set (getTop n s) \<subseteq> set (userHits s)"
    unfolding g using set_take_subset [of "nat n" ?ys] by simp
  have 4: "snd (hd (getTop n s)) = Max (snd ` set (userHits s))" if "getTop n s \<noteq> []"
  proof -
    from that have "userHits s \<noteq> []" "nat n \<noteq> 0" by (auto simp: g)
    then show ?thesis by (simp add: g hd_sorted_desc_Max)
  qed
  have 5: "r_topDamage (buildResults d s) = Max (snd ` set (userHits s)) \<and>
            (\<exists>u. r_topDamageDealer (buildResults d s) = Some u \<and>
                 (u, r_topDamage (buildResults d s)) \<in> set (userHits s))"
    if ne: "userHits s \<noteq> []"
  proof -
    have "?ys \<noteq> []" using ne by (metis length_sort length_0_conv)
    then obtain y ys where ys: "?ys = y # ys" by (cases ?ys) auto
    then have t: "getTop 1 s = [y]" by (simp add: getTop_nonneg)
    have yin: "y \<in> set (userHits s)" using ys by (metis set_sort list.set_intros(1))
    have ymax: "snd y = Max (snd ` set (userHits s))"
      using hd_sorted_desc_Max [OF ne] ys by simp
    have "(fst y, snd y) \<in> set (userHits s)" using yin by simp
    then have "(fst y, Max (snd ` set (userHits s))) \<in> set (userHits s)"
      unfolding ymax .
    then show ?thesis using ymax by (simp add: buildResults_def t)
  qed
  from 1 2 3 4 5 show ?thesis by blast
qed

theorem getTop_sorted_witness:
  "(0::int) \<le> 1 \<and> getTop 1 round3_hp1 \<noteq> [] \<and> userHits round3_hp0 \<noteq> [] \<and>
   length (getTop 1 round3_hp1) \<le> 1 \<and>
   snd (hd (getTop 1 round3_hp1)) = 1 \<and>
   r_topDamage (buildResults True round3_hp0) = 2"
proof -
  have g: "getTop 1 round3_hp1 \<noteq> []"
    by (simp add: getTop_def slice0_def round3_hp1_eq round3_eq)
  have u: "userHits round3_hp0 \<noteq> []" by (simp add: round3_hp0_eq)
  have m1: "Max (snd ` set (userHits round3_hp1)) = 1" by (simp add: round3_hp1_eq)
  have m0: "Max (snd ` set (userHits round3_hp0)) = 2" by (simp add: round3_hp0_eq)
  from getTop_sorted [where n = 1 and s = round3_hp1 and d = True] g m1
  have a: "length (getTop 1 round3_hp1) \<le> 1 \<and> snd (hd (getTop 1 round3_hp1)) = 1" by simp
  from getTop_sorted [where n = 1 and s = round3_hp0 and d = True] u m0
  have b: "r_topDamage (buildResults True round3_hp0) = 2" by simp
  from g u a b show ?thesis by simp
qed

section \<open>Bet notifications\<close>

lemma length_update:
  "length (AList.update k v al) = (if k \<in> fst ` set al then length al else Suc (length al))"
  by (induction al) auto

lemma floor_rat_numeral: "\<lfloor>numeral a / numeral b :: rat\<rfloor> = numeral a div numeral b"
  using floor_divide_of_int_eq [of "numeral a" "numeral b", where ?'a = rat] by simp

lemma ceiling_rat_numeral:
  "\<lceil>numeral a / numeral b :: rat\<rceil> = - (- numeral a div numeral b)"
  using floor_divide_of_int_eq [of "- numeral a" "numeral b", where ?'a = rat]
  by (simp add: ceiling_def)

lemmas double_eval = to_double_def round_double_def nearest_even_def floor_log2_rat_def
  pow2_def bit_length.simps Let_def floor_rat_numeral ceiling_rat_numeral

text \<open>
  The double of 1.07, its product with \<^verbatim>\<open>LAMPORTS_PER_SOL\<close>, which is
  \<open>1070000000 + 2\<^sup>-\<^sup>2\<^sup>3\<close> and not an integer, and the sums of the scenario below.
\<close>

lemma double_107: "to_double (107 / 100) = Num (4818851601286431 / 4503599627370496)"
  by (simp add: double_eval)

lemma lamports_107:
  "num_mul (to_double (107 / 100)) (Num (of_int LAMPORTS_PER_SOL)) =
     Num (8975810560000001 / 8388608)"
  by (simp add: double_107 num_mul_def LAMPORTS_PER_SOL_def double_eval)

lemma lamports_107_sums:
  "num_add (Num 0) (Num (8975810560000001 / 8388608)) = Num (8975810560000001 / 8388608)"
  "num_add (Num (8975810560000001 / 8388608)) (Num (8975810560000001 / 8388608)) =
     Num (8975810560000001 / 4194304)"
  by (simp_all add: num_add_def double_eval)

text \<open>
  C9. A bet notification adds the notified amount, converted to lamports by the product
  \<^verbatim>\<open>amount * LAMPORTS_PER_SOL\<close> of doubles, to \<^verbatim>\<open>totalDeathBets\<close> when the prediction is the
  string \<^verbatim>\<open>death\<close>, leaving \<^verbatim>\<open>totalSurvivalBets\<close> as it was, and for every other
  prediction, a missing one included, adds it to \<^verbatim>\<open>totalSurvivalBets\<close>, leaving
  \<^verbatim>\<open>totalDeathBets\<close> as it was; the sum is the sum of doubles. The wallet's entry in
  \<^verbatim>\<open>onChainBets\<close> is set to the notified bet: replaced when the wallet has one, added
  otherwise. A second notification for the same wallet keeps the number of entries and
  adds the amount to the same total once more.
\<close>

theorem bet_notification_totals:
  "(n_prediction b = Some ''death'' \<longrightarrow>
      totalDeathBets (fst (bet_notification now b s)) =
        num_add (totalDeathBets s) (num_mul (n_amount b) (Num (of_int LAMPORTS_PER_SOL))) \<and>
      totalSurvivalBets (fst (bet_notification now b s)) = totalSurvivalBets s) \<and>
   (n_prediction b \<noteq> Some ''death'' \<longrightarrow>
      totalSurvivalBets (fst (bet_notification now b s)) =
        num_add (totalSurvivalBets s) (num_mul (n_amount b) (Num (of_int LAMPORTS_PER_SOL))) \<and>
      totalDeathBets (fst (bet_notification now b s)) = totalDeathBets s) \<and>
   map_of (onChainBets (fst (bet_notification now b s))) =
     (map_of (onChainBets s))
       (n_walletAddress b \<mapsto>
          \<lparr>bet_username = n_username b,
           bet_amount = num_mul (n_amount b) (Num (of_int LAMPORTS_PER_SOL)),
           bet_prediction = n_prediction b, bet_signature = n_signature b,
           bet_timestamp = now\<rparr>) \<and>
   length (onChainBets (fst (bet_notification now b s))) =
     (if n_walletAddress b \<in> fst ` set (onChainBets s) then length (onChainBets s)
      else length (onChainBets s) + 1) \<and>
   length (onChainBets (fst (bet_notification now' b (fst (bet_notification now b s))))) =
     length (onChainBets (fst (bet_notification now b s))) \<and>
   (n_prediction b = Some ''death'' \<longrightarrow>
      totalDeathBets (fst (bet_notification now' b (fst (bet_notification now b s)))) =
        num_add
          (num_add (totalDeathBets s) (num_mul (n_amount b) (Num (of_int LAMPORTS_PER_SOL))))
          (num_mul (n_amount b) (Num (of_int LAMPORTS_PER_SOL)))) \<and>
   (n_prediction b \<noteq> Some ''death'' \<longrightarrow>
      totalSurvivalBets (fst (bet_notification now' b (fst (bet_notification now b s)))) =
        num_add
          (num_add (totalSurvivalBets s)
             (num_mul (n_amount b) (Num (of_int LAMPORTS_PER_SOL))))
          (num_mul (n_amount b) (Num (of_int LAMPORTS_PER_SOL))))"
  by (simp add: bet_notification_def Let_def update_conv' length_update dom_update)

theorem bet_notification_totals_witness:
  "n_prediction note_death = Some ''death'' \<and>
   n_prediction (note_death\<lparr>n_prediction := Some ''Death''\<rparr>) \<noteq> Some ''death'' \<and>
   n_prediction (note_death\<lparr>n_prediction := None\<rparr>) \<noteq> Some ''death'' \<and>
   totalDeathBets (fst (bet_notification 1005 note_death betting3)) =
     Num (8975810560000001 / 8388608) \<and>
   totalSurvivalBets (fst (bet_notification 1005 note_death betting3)) = Num 0 \<and>
   totalSurvivalBets
     (fst (bet_notification 1005 (note_death\<lparr>n_prediction := Some ''Death''\<rparr>) betting3)) =
     Num (8975810560000001 / 8388608) \<and>
   totalSurvivalBets
     (fst (bet_notification 1005 (note_death\<lparr>n_prediction := None\<rparr>) betting3)) =
     Num (8975810560000001 / 8388608) \<and>
   totalDeathBets (fst (bet_notification 1006 note_death
                         (fst (bet_notification 1005 note_death betting3)))) =
     Num (8975810560000001 / 4194304) \<and>
   length (onChainBets (fst (bet_notification 1006 note_death
                              (fst (bet_notification 1005 note_death betting3))))) = 1"
proof -
  have p: "n_prediction note_death = Some ''death''"
    "n_prediction (note_death\<lparr>n_prediction := Some ''Death''\<rparr>) \<noteq> Some ''death''"
    "n_prediction (note_death\<lparr>n_prediction := None\<rparr>) \<noteq> Some ''death''"
    by (simp_all add: note_death_def)
  have m: "num_mul (n_amount note_death) (Num (of_int LAMPORTS_PER_SOL)) =
      Num (8975810560000001 / 8388608)"
    "num_mul (n_amount (note_death\<lparr>n_prediction := Some ''Death''\<rparr>))
       (Num (of_int LAMPORTS_PER_SOL)) = Num (8975810560000001 / 8388608)"
    "num_mul (n_amount (note_death\<lparr>n_prediction := None\<rparr>))
       (Num (of_int LAMPORTS_PER_SOL)) = Num (8975810560000001 / 8388608)"
    by (simp_all add: note_death_def lamports_107)
  have z: "totalDeathBets betting3 = Num 0" "totalSurvivalBets betting3 = Num 0"
    "onChainBets betting3 = []"
    by (simp_all add: betting3_eq)
  from bet_notification_totals [where b = note_death and now = 1005 and s = betting3
      and now' = 1006] p(1)
  have a: "totalDeathBets (fst (bet_notification 1005 note_death betting3)) =
       Num (8975810560000001 / 8388608) \<and>
     totalSurvivalBets (fst (bet_notification 1005 note_death betting3)) = Num 0 \<and>
     totalDeathBets (fst (bet_notification 1006 note_death
                         (fst (bet_notification 1005 note_death betting3)))) =
       Num (8975810560000001 / 4194304) \<and>
     length (onChainBets (fst (bet_notification 1005 note_death betting3))) = 1 \<and>
     length (onChainBets (fst (bet_notification 1006 note_death
                              (fst (bet_notification 1005 note_death betting3))))) = 1"
    by (simp add: m z lamports_107_sums)
  from bet_notification_totals
    [where b = "note_death\<lparr>n_prediction := Some ''Death''\<rparr>" and now = 1005
      and s = betting3 and now' = 1006] p(2)
  have b: "totalSurvivalBets
     (fst (bet_notification 1005 (note_death\<lparr>n_prediction := Some ''Death''\<rparr>) betting3)) =
     Num (8975810560000001 / 8388608)"
    by (simp add: m z lamports_107_sums)
  from bet_notification_totals
    [where b = "note_death\<lparr>n_prediction := None\<rparr>" and now = 1005
      and s = betting3 and now' = 1006] p(3)
  have c: "totalSurvivalBets
     (fst (bet_notification 1005 (note_death\<lparr>n_prediction := None\<rparr>) betting3)) =
     Num (8975810560000001 / 8388608)"
    by (simp add: m z lamports_107_sums)
  from p a b c show ?thesis by simp
qed

section \<open>Settlement\<close>

subsection \<open>Doubles are exact on integers below \<open>2\<^sup>5\<^sup>3\<close>\<close>

lemma bit_length_bounds:
  "0 < n \<Longrightarrow> 2 ^ (bit_length n - 1) \<le> n \<and> n < 2 ^ bit_length n"
proof (induction n rule: bit_length.induct)
  case (1 n)
  show ?case
  proof (cases "n div 2 = 0")
    case True
    then have "n = 1" using 1(2) by auto
    then show ?thesis by (simp add: bit_length.simps)
  next
    case False
    then have h: "2 ^ (bit_length (n div 2) - 1) \<le> n div 2 \<and> n div 2 < 2 ^ bit_length (n div 2)"
      using 1 by simp
    have bl: "bit_length n = Suc (bit_length (n div 2))"
      using 1(2) by (subst bit_length.simps) simp
    have pos: "bit_length (n div 2) > 0" using False by (subst bit_length.simps) simp
    then obtain j where j: "bit_length (n div 2) = Suc j" by (cases "bit_length (n div 2)") auto
    show ?thesis using h by (simp add: bl j) linarith
  qed
qed

lemma bit_length_pos: "0 < n \<Longrightarrow> 0 < bit_length n"
  by (subst bit_length.simps) simp

lemma bit_length_le: "n < 2 ^ w \<Longrightarrow> bit_length n \<le> w"
proof (cases "n = 0")
  case True
  then show ?thesis by (simp add: bit_length.simps)
next
  case False
  assume "n < 2 ^ w"
  with bit_length_bounds [of n] False have "(2::nat) ^ (bit_length n - 1) < 2 ^ w"
    by (meson le_less_trans not_gr_zero)
  then have "bit_length n - 1 < w" by (simp only: power_strict_increasing_iff)
  then show ?thesis by simp
qed


lemma floor_log2_ge:
  assumes "0 < a" and "0 < y"
  shows "ge_pow2 a y (floor_log2 a y)"
proof (cases "ge_pow2 a y (int (bit_length (nat a)) - int (bit_length (nat y)))")
  case True
  then show ?thesis by (simp add: floor_log2_def Let_def)
next
  case False
  let ?ba = "bit_length (nat a)" and ?by = "bit_length (nat y)"
  have e: "floor_log2 a y = int ?ba - int ?by - 1" using False by (simp add: floor_log2_def Let_def)
  have la: "(2::int) ^ (?ba - 1) \<le> a"
  proof -
    have "2 ^ (?ba - 1) \<le> nat a" using bit_length_bounds [of "nat a"] assms(1) by simp
    then have "int (2 ^ (?ba - 1)) \<le> a" using assms(1) by linarith
    then show ?thesis by simp
  qed
  have uy: "y < (2::int) ^ ?by"
  proof -
    have "nat y < 2 ^ ?by" using bit_length_bounds [of "nat y"] assms(2) by simp
    then have "y < int (2 ^ ?by)" using assms(2) by linarith
    then show ?thesis by simp
  qed
  have pa: "0 < ?ba" using assms(1) by (simp add: bit_length_pos)
  show ?thesis
  proof (cases "0 \<le> int ?ba - int ?by - 1")
    case True
    then have eq: "?ba - 1 = ?by + nat (int ?ba - int ?by - 1)" by linarith
    have "y * 2 ^ nat (int ?ba - int ?by - 1) \<le> 2 ^ ?by * 2 ^ nat (int ?ba - int ?by - 1)"
      using uy by (simp add: mult_right_mono)
    also have "\<dots> = (2::int) ^ (?ba - 1)" by (subst eq) (simp add: power_add)
    finally show ?thesis using la True by (simp add: e ge_pow2_def)
  next
    case False
    then have eq: "?by = (?ba - 1) + nat (- (int ?ba - int ?by - 1))" using pa by linarith
    have "y \<le> (2::int) ^ (?ba - 1) * 2 ^ nat (- (int ?ba - int ?by - 1))"
      using uy by (subst (asm) eq) (simp add: power_add)
    also have "\<dots> \<le> a * 2 ^ nat (- (int ?ba - int ?by - 1))"
      using la by (simp add: mult_right_mono)
    finally show ?thesis using False by (simp add: e ge_pow2_def)
  qed
qed

lemma floor_log2_le_52:
  assumes "0 < a" and "a < 2 ^ 53" and "0 < y"
  shows "floor_log2 a y \<le> 52"
proof -
  have "nat a < 2 ^ 53" using assms by (simp add: nat_less_iff)
  then have "bit_length (nat a) \<le> 53" by (rule bit_length_le)
  moreover have "0 < bit_length (nat y)" using assms(3) by (simp add: bit_length_pos)
  ultimately show ?thesis by (simp add: floor_log2_def Let_def)
qed

lemma scaled_significand:
  assumes "0 < a" and "a < 2 ^ 53" and "0 < y"
  shows "0 \<le> 52 - floor_log2 a y \<and> y * 2 ^ 52 \<le> a * 2 ^ nat (52 - floor_log2 a y)"
proof -
  let ?e = "floor_log2 a y"
  have le: "?e \<le> 52" using assms by (rule floor_log2_le_52)
  have ge: "ge_pow2 a y ?e" using assms(1,3) by (rule floor_log2_ge)
  have "y * 2 ^ 52 \<le> a * 2 ^ nat (52 - ?e)"
  proof (cases "0 \<le> ?e")
    case True
    then have 1: "y * 2 ^ nat ?e \<le> a" using ge by (simp add: ge_pow2_def)
    have eq: "(52::nat) = nat ?e + nat (52 - ?e)" using True le by linarith
    have "y * 2 ^ 52 = (y * 2 ^ nat ?e) * 2 ^ nat (52 - ?e)"
      by (subst eq) (simp add: power_add)
    also have "\<dots> \<le> a * 2 ^ nat (52 - ?e)" using 1 by (simp add: mult_right_mono)
    finally show ?thesis .
  next
    case False
    then have 1: "y \<le> a * 2 ^ nat (- ?e)" using ge by (simp add: ge_pow2_def)
    have eq: "nat (52 - ?e) = nat (- ?e) + 52" using False by linarith
    have "y * 2 ^ 52 \<le> (a * 2 ^ nat (- ?e)) * 2 ^ 52" using 1 by (simp add: mult_right_mono)
    also have "\<dots> = a * 2 ^ nat (52 - ?e)" by (subst eq) (simp add: power_add)
    finally show ?thesis .
  qed
  then show ?thesis using le by simp
qed

lemma div_int_unique_bounds:
  fixes x q p :: int
  assumes "0 < p" and "q * p \<le> x" and "x < (q + 1) * p"
  shows "x div p = q"
proof -
  have "x = q * p + (x - q * p)" by simp
  moreover have "0 \<le> x - q * p" "x - q * p < p" using assms by (simp_all add: algebra_simps)
  ultimately show ?thesis
    by (metis add.commute div_pos_pos_trivial add_cancel_left_right div_mult_self3 assms(1) less_irrefl)
qed

lemma significand_small_divisor:
  fixes a y p :: int
  assumes "0 < p" and "a < 2 ^ 53" and "y * 2 ^ 52 \<le> a * p"
  shows "y < 2 * p"
proof (rule ccontr)
  assume "\<not> y < 2 * p"
  then have "2 * p * 2 ^ 52 \<le> y * 2 ^ 52" by simp
  moreover have "a * p < 2 ^ 53 * p" using assms(1,2) by (simp add: mult_strict_right_mono)
  ultimately show False using assms(3) by simp
qed

lemma round_half_even_cases:
  fixes n d :: int
  assumes "0 < d"
  shows "(round_half_even n d = n div d \<and> 2 * (n mod d) \<le> d) \<or>
         (round_half_even n d = n div d + 1 \<and> d \<le> 2 * (n mod d))"
  by (auto simp: round_half_even_def Let_def)

lemma scaled_quotient_aux:
  fixes a y p q r d m :: int
  assumes a: "a = q * y + r" and r: "0 \<le> r" "r < y"
    and n: "a * p = d * y + m" and m: "0 \<le> m" "m < y" and p: "0 < p"
  shows "q * p \<le> d \<and> d < (q + 1) * p"
proof -
  have y: "0 < y" using r by simp
  have e: "q * p * y + r * p = d * y + m"
  proof -
    have "q * p * y + r * p = (q * y + r) * p" by (simp only: algebra_simps)
    then show ?thesis using a n by simp
  qed
  have rp: "0 \<le> r * p" using r p by simp
  have rp': "r * p + p \<le> y * p"
  proof -
    have "(r + 1) * p \<le> y * p" using r p by (intro mult_right_mono) simp_all
    then show ?thesis by (simp only: distrib_right mult_1)
  qed
  have 1: "q * p \<le> d"
  proof (rule ccontr)
    assume "\<not> q * p \<le> d"
    then have "d + 1 \<le> q * p" by simp
    then have "(d + 1) * y \<le> q * p * y" using y by (intro mult_right_mono) simp_all
    then have "d * y + y \<le> q * p * y" by (simp only: distrib_right mult_1)
    then show False using e rp m by linarith
  qed
  have 2: "d < (q + 1) * p"
  proof (rule ccontr)
    assume "\<not> d < (q + 1) * p"
    then have "(q + 1) * p \<le> d" by simp
    then have "(q + 1) * p * y \<le> d * y" using y by (intro mult_right_mono) simp_all
    moreover have "(q + 1) * p * y = q * p * y + y * p" by (simp only: algebra_simps)
    ultimately have "q * p * y + y * p \<le> d * y" by simp
    then show False using e rp' m p by linarith
  qed
  from 1 2 show ?thesis by simp
qed

lemma rounded_floor_aux:
  fixes a y p q r d m :: int
  assumes a: "a = q * y + r" and r: "0 \<le> r" "r < y"
    and n: "a * p = d * y + m" and m: "0 \<le> m" "m < y" and p: "0 < p"
    and small: "y < 2 * p" and up: "y \<le> 2 * m"
  shows "d + 1 < (q + 1) * p"
proof (rule ccontr)
  have y: "0 < y" using r by simp
  have e: "q * p * y + r * p = d * y + m"
  proof -
    have "q * p * y + r * p = (q * y + r) * p" by (simp only: algebra_simps)
    then show ?thesis using a n by simp
  qed
  have rp': "r * p + p \<le> y * p"
  proof -
    have "(r + 1) * p \<le> y * p" using r p by (intro mult_right_mono) simp_all
    then show ?thesis by (simp only: distrib_right mult_1)
  qed
  assume "\<not> d + 1 < (q + 1) * p"
  then have "(q + 1) * p - 1 \<le> d" by simp
  then have "((q + 1) * p - 1) * y \<le> d * y" using y by (intro mult_right_mono) simp_all
  moreover have "((q + 1) * p - 1) * y = q * p * y + y * p - y" by (simp only: algebra_simps)
  ultimately have "q * p * y + y * p - y \<le> d * y" by simp
  then have "m \<le> y - p" using e rp' by linarith
  then show False using up small by linarith
qed

lemma rounded_ceiling_aux:
  fixes a y p q r d m :: int
  assumes a: "a = q * y + r" and r: "1 \<le> r" "r < y"
    and n: "a * p = d * y + m" and p: "0 < p"
    and small: "y < 2 * p" and dn: "2 * m \<le> y"
  shows "d \<noteq> q * p"
proof
  have e: "q * p * y + r * p = d * y + m"
  proof -
    have "q * p * y + r * p = (q * y + r) * p" by (simp only: algebra_simps)
    then show ?thesis using a n by simp
  qed
  assume "d = q * p"
  then have "m = r * p" using e by simp
  moreover have "1 * p \<le> r * p" using r p by (intro mult_right_mono) simp_all
  ultimately show False using dn small by simp
qed

lemma neg_mult_div:
  fixes c p :: int
  assumes "0 < p"
  shows "(- (c * p)) div p = - c"
proof -
  have "- (c * p) = (- c) * p" by simp
  then show ?thesis using assms by (simp only: nonzero_mult_div_cancel_right)
qed

lemma rounded_floor:
  fixes a y p :: int
  assumes "0 < a" and "a < 2 ^ 53" and "0 < y" and "0 < p" and "y * 2 ^ 52 \<le> a * p"
  shows "round_half_even (a * p) y div p = a div y"
proof -
  let ?q = "a div y" and ?r = "a mod y" and ?d = "(a * p) div y" and ?m = "(a * p) mod y"
  have a: "a = ?q * y + ?r" by simp
  have r: "0 \<le> ?r" "?r < y" using assms(3) by simp_all
  have n: "a * p = ?d * y + ?m" by simp
  have m: "0 \<le> ?m" "?m < y" using assms(3) by simp_all
  have b: "?q * p \<le> ?d \<and> ?d < (?q + 1) * p"
    using a r n m assms(4) by (rule scaled_quotient_aux)
  have small: "y < 2 * p" using assms(4,2,5) by (rule significand_small_divisor)
  from round_half_even_cases [OF assms(3), of "a * p"]
  have "?q * p \<le> round_half_even (a * p) y \<and> round_half_even (a * p) y < (?q + 1) * p"
  proof
    assume "round_half_even (a * p) y = ?d \<and> 2 * ?m \<le> y"
    then show ?thesis using b by simp
  next
    assume up: "round_half_even (a * p) y = ?d + 1 \<and> y \<le> 2 * ?m"
    then have u: "y \<le> 2 * ?m" by simp
    have "?d + 1 < (?q + 1) * p"
      using a r n m assms(4) small u by (rule rounded_floor_aux)
    then show ?thesis using up b by simp
  qed
  then show ?thesis using assms(4) by (intro div_int_unique_bounds) simp_all
qed

lemma rounded_ceiling:
  fixes a y p :: int
  assumes "0 < a" and "a < 2 ^ 53" and "0 < y" and "0 < p" and "y * 2 ^ 52 \<le> a * p"
  shows "(- round_half_even (a * p) y) div p = (- a) div y"
proof -
  let ?q = "a div y" and ?r = "a mod y" and ?d = "(a * p) div y" and ?m = "(a * p) mod y"
  have a: "a = ?q * y + ?r" by simp
  have r: "0 \<le> ?r" "?r < y" using assms(3) by simp_all
  have n: "a * p = ?d * y + ?m" by simp
  have m: "0 \<le> ?m" "?m < y" using assms(3) by simp_all
  have b: "?q * p \<le> ?d \<and> ?d < (?q + 1) * p"
    using a r n m assms(4) by (rule scaled_quotient_aux)
  have small: "y < 2 * p" using assms(4,2,5) by (rule significand_small_divisor)
  show ?thesis
  proof (cases "?r = 0")
    case True
    then have "y dvd a" using assms(3) by (simp add: dvd_eq_mod_eq_0)
    then obtain c where c: "a = y * c" by (auto simp: dvd_def)
    have ap: "a * p = (c * p) * y" by (simp add: c)
    have "(a * p) div y = c * p" unfolding ap using assms(3) by simp
    moreover have "(a * p) mod y = 0" unfolding ap by simp
    ultimately have "round_half_even (a * p) y = c * p"
      using assms(3) by (simp add: round_half_even_def Let_def)
    moreover have "(- a) div y = - c"
    proof -
      have "- a = (- c) * y" by (simp add: c)
      then show ?thesis using assms(3) by (simp only: nonzero_mult_div_cancel_right)
    qed
    ultimately show ?thesis using assms(4) by (simp add: neg_mult_div)
  next
    case False
    then have r1: "1 \<le> ?r" using r by simp
    have target: "(- a) div y = - ?q - 1"
      using False assms(3) by (simp add: zdiv_zminus1_eq_if)
    from round_half_even_cases [OF assms(3), of "a * p"]
    have "?q * p < round_half_even (a * p) y \<and> round_half_even (a * p) y \<le> (?q + 1) * p"
    proof
      assume dn: "round_half_even (a * p) y = ?d \<and> 2 * ?m \<le> y"
      then have d: "2 * ?m \<le> y" by simp
      have "?d \<noteq> ?q * p" using a r1 r(2) n assms(4) small d by (rule rounded_ceiling_aux)
      then show ?thesis using dn b by simp
    next
      assume "round_half_even (a * p) y = ?d + 1 \<and> y \<le> 2 * ?m"
      then show ?thesis using b by simp
    qed
    then have "(- ?q - 1) * p \<le> - round_half_even (a * p) y"
      and "- round_half_even (a * p) y < (- ?q - 1 + 1) * p"
      by (simp_all add: algebra_simps)
    then have "(- round_half_even (a * p) y) div p = - ?q - 1"
      using assms(4) by (intro div_int_unique_bounds) simp_all
    then show ?thesis using target by simp
  qed
qed

lemma js_floor_div_exact:
  assumes "\<bar>x\<bar> < 2 ^ 53" and "0 < y"
  shows "js_floor_div x y = x div y"
proof (cases "x = 0")
  case True
  then show ?thesis by (simp add: js_floor_div_def)
next
  case False
  let ?a = "\<bar>x\<bar>"
  let ?k = "52 - floor_log2 ?a y"
  have a: "0 < ?a" "?a < 2 ^ 53" using False assms(1) by simp_all
  from scaled_significand [OF a assms(2)]
  have k: "0 \<le> ?k" and s: "y * 2 ^ 52 \<le> ?a * 2 ^ nat ?k" by simp_all
  have p: "(0::int) < 2 ^ nat ?k" by simp
  show ?thesis
  proof (cases "0 < x")
    case True
    then have "js_floor_div x y = round_half_even (?a * 2 ^ nat ?k) y div 2 ^ nat ?k"
      using k by (simp add: js_floor_div_def Let_def)
    also have "\<dots> = ?a div y" using a assms(2) p s by (rule rounded_floor)
    finally show ?thesis using True by simp
  next
    case neg: False
    then have "js_floor_div x y = (- round_half_even (?a * 2 ^ nat ?k) y) div 2 ^ nat ?k"
      using k False by (simp add: js_floor_div_def Let_def)
    also have "\<dots> = (- ?a) div y" using a assms(2) p s by (rule rounded_ceiling)
    finally show ?thesis using neg False by simp
  qed
qed

lemma fl_int_exact: "\<bar>n\<bar> < 2 ^ 53 \<Longrightarrow> fl_int n = n"
  by (simp add: fl_int_def)

subsection \<open>processPayouts\<close>

lemma prizeShare_exact:
  assumes "0 \<le> l" and "0 \<le> f" and "0 < w" and "exact_range l f w a"
  shows "prizeShare l f w a = exact_prizeShare l f w a \<and>
         totalPayout l f w a = exact_totalPayout l f w a"
proof -
  from assms(4) have l: "l < 2 ^ 53" and lf: "l * f < 2 ^ 53"
    and pa: "\<bar>(l - (l * f) div 100) * a\<bar> < 2 ^ 53"
    and tp: "\<bar>exact_totalPayout l f w a\<bar> < 2 ^ 53"
    by (simp_all add: exact_range_def)
  have lf0: "0 \<le> l * f" using assms(1,2) by simp
  have 1: "js_mul l f = l * f" using lf lf0 by (simp add: js_mul_def fl_int_exact)
  have fee: "feeAmount l f = (l * f) div 100"
    using lf lf0 by (simp add: feeAmount_def 1 js_floor_div_exact)
  have fee0: "0 \<le> (l * f) div 100" using lf0 by (simp add: pos_imp_zdiv_nonneg_iff)
  have feeu: "(l * f) div 100 \<le> l * f"
    using lf0 by arith
  have "\<bar>l - (l * f) div 100\<bar> < 2 ^ 53" using l lf assms(1) fee0 feeu by linarith
  then have pool: "prizePool l f = l - (l * f) div 100"
    by (simp add: prizePool_def fee js_sub_def fl_int_exact)
  have 2: "js_mul (l - (l * f) div 100) a = (l - (l * f) div 100) * a"
    using pa by (simp add: js_mul_def fl_int_exact)
  have share: "prizeShare l f w a = exact_prizeShare l f w a"
    using pa assms(3) by (simp add: prizeShare_def pool 2 js_floor_div_exact exact_prizeShare_def)
  have "totalPayout l f w a = exact_totalPayout l f w a"
    using tp by (simp add: totalPayout_def share js_add_def fl_int_exact exact_totalPayout_def)
  with share show ?thesis by simp
qed

lemma payout_loop_claims:
  "Rpc (ClaimPayout pubkey bettor) \<in> set (fst (payout_loop wp w l f bets)) \<longleftrightarrow>
     (\<exists>b c. (pubkey, Inr b, c) \<in> set bets \<and> b_amount b < 2 ^ 53 \<and> b_prediction b = wp \<and>
        b_bettor b = bettor)"
proof (induction bets)
  case Nil
  then show ?case by simp
next
  case (Cons sb bets)
  obtain pk fetched claimed where sb: "sb = (pk, fetched, claimed)" by (cases sb) auto
  have step: "Rpc (ClaimPayout pubkey bettor) \<in> set (fst (payout_step wp w l f sb)) \<longleftrightarrow>
     (\<exists>b. pk = pubkey \<and> fetched = Inr b \<and> b_amount b < 2 ^ 53 \<and> b_prediction b = wp \<and>
        b_bettor b = bettor)"
    by (auto simp: payout_step_def toNumber_def sb split: sum.splits)
  show ?case using Cons.IH step
    by (auto simp: case_prod_beta sb)
qed

lemma payout_loop_only_claims:
  "e \<in> set (fst (payout_loop wp w l f bets)) \<Longrightarrow> \<exists>pubkey bettor. e = Rpc (ClaimPayout pubkey bettor)"
proof (induction bets)
  case Nil
  then show ?case by simp
next
  case (Cons sb bets)
  obtain pk fetched claimed where sb: "sb = (pk, fetched, claimed)" by (cases sb) auto
  show ?case using Cons
    by (auto simp: case_prod_beta sb payout_step_def split: sum.splits if_splits)
qed

lemma payout_loop_reports:
  "r \<in> set (snd (payout_loop wp w l f bets)) \<longleftrightarrow>
     (\<exists>pubkey b tx. (pubkey, Inr b, Inr tx) \<in> set bets \<and> b_amount b < 2 ^ 53 \<and>
        b_prediction b = wp \<and> r = payout_entry w l f b (int (b_amount b)) tx)"
proof (induction bets)
  case Nil
  then show ?case by simp
next
  case (Cons sb bets)
  obtain pk fetched claimed where sb: "sb = (pk, fetched, claimed)" by (cases sb) auto
  have step: "r \<in> set (snd (payout_step wp w l f sb)) \<longleftrightarrow>
     (\<exists>b tx. fetched = Inr b \<and> claimed = Inr tx \<and> b_amount b < 2 ^ 53 \<and>
        b_prediction b = wp \<and> r = payout_entry w l f b (int (b_amount b)) tx)"
    by (auto simp: payout_step_def toNumber_def sb split: sum.splits)
  have "r \<in> set (snd (payout_loop wp w l f (sb # bets))) \<longleftrightarrow>
        r \<in> set (snd (payout_step wp w l f sb)) \<or> r \<in> set (snd (payout_loop wp w l f bets))"
    by (simp add: case_prod_beta)
  also have "\<dots> \<longleftrightarrow>
     (\<exists>b tx. fetched = Inr b \<and> claimed = Inr tx \<and> b_amount b < 2 ^ 53 \<and>
        b_prediction b = wp \<and> r = payout_entry w l f b (int (b_amount b)) tx) \<or>
     (\<exists>pubkey b tx. (pubkey, Inr b, Inr tx) \<in> set bets \<and> b_amount b < 2 ^ 53 \<and>
        b_prediction b = wp \<and> r = payout_entry w l f b (int (b_amount b)) tx)"
    by (simp only: step Cons.IH)
  also have "\<dots> \<longleftrightarrow>
     (\<exists>pubkey b tx. (pubkey, Inr b, Inr tx) \<in> set (sb # bets) \<and> b_amount b < 2 ^ 53 \<and>
        b_prediction b = wp \<and> r = payout_entry w l f b (int (b_amount b)) tx)"
    unfolding sb list.set(2) insert_iff prod.inject by blast
  finally show ?case .
qed

lemma processPayouts_winners:
  assumes "bettingRoundPDA s \<noteq> None"
    and "a_totalDeathBets acct < 2 ^ 53" and "a_totalSurvivalBets acct < 2 ^ 53"
    and "totalWinnerBets (a_bossDefeated acct) (int (a_totalDeathBets acct))
           (int (a_totalSurvivalBets acct)) \<noteq> 0"
  shows "processPayouts (Inr acct) (Inr bets) s =
           (fst (payout_loop (winningPrediction (a_bossDefeated acct))
                   (totalWinnerBets (a_bossDefeated acct) (int (a_totalDeathBets acct))
                      (int (a_totalSurvivalBets acct)))
                   (totalLoserBets (a_bossDefeated acct) (int (a_totalDeathBets acct))
                      (int (a_totalSurvivalBets acct)))
                   (int (a_feePercentage acct)) bets) @
            claimFees s @
            [Emit (PayoutsProcessed (a_bossDefeated acct)
                     (winningPrediction (a_bossDefeated acct))
                     (totalLoserBets (a_bossDefeated acct) (int (a_totalDeathBets acct))
                        (int (a_totalSurvivalBets acct)))
                     (totalWinnerBets (a_bossDefeated acct) (int (a_totalDeathBets acct))
                        (int (a_totalSurvivalBets acct)))
                     (snd (payout_loop (winningPrediction (a_bossDefeated acct))
                        (totalWinnerBets (a_bossDefeated acct) (int (a_totalDeathBets acct))
                           (int (a_totalSurvivalBets acct)))
                        (totalLoserBets (a_bossDefeated acct) (int (a_totalDeathBets acct))
                           (int (a_totalSurvivalBets acct)))
                        (int (a_feePercentage acct)) bets)))],
            Inr (Some (snd (payout_loop (winningPrediction (a_bossDefeated acct))
                        (totalWinnerBets (a_bossDefeated acct) (int (a_totalDeathBets acct))
                           (int (a_totalSurvivalBets acct)))
                        (totalLoserBets (a_bossDefeated acct) (int (a_totalDeathBets acct))
                           (int (a_totalSurvivalBets acct)))
                        (int (a_feePercentage acct)) bets))))"
  using assms by (simp add: processPayouts_def toNumber_def case_prod_beta Let_def)

lemma claimFees_no_claimPayout: "Rpc (ClaimPayout pubkey bettor) \<notin> set (claimFees s)"
  by (simp add: claimFees_def)

text \<open>
  What a settlement does apart from the amounts, for a round whose totals have at most 53
  bits and with \<open>W\<close> the total of the winning side: when \<open>W = 0\<close> it calls \<^verbatim>\<open>claimFees\<close>
  only and returns; otherwise a \<^verbatim>\<open>claimPayout\<close> is issued for exactly the scanned bets
  that could be read and predicted the winning side, so a losing bet gets no payout
  action, and the payouts reported are those of the winning bets whose \<^verbatim>\<open>claimPayout\<close>
  went through.
\<close>

lemma processPayouts_actions:
  assumes "bettingRoundPDA s \<noteq> None"
    and "a_totalDeathBets acct < 2 ^ 53" and "a_totalSurvivalBets acct < 2 ^ 53"
    and "W = totalWinnerBets (a_bossDefeated acct) (int (a_totalDeathBets acct))
               (int (a_totalSurvivalBets acct))"
    and "L = totalLoserBets (a_bossDefeated acct) (int (a_totalDeathBets acct))
               (int (a_totalSurvivalBets acct))"
  shows "(W = 0 \<longrightarrow> processPayouts (Inr acct) scanned s = (claimFees s, Inr None)) \<and>
         (W \<noteq> 0 \<longrightarrow>
            (Rpc (ClaimPayout pubkey bettor) \<in> set (fst (processPayouts (Inr acct) (Inr bets) s))
               \<longleftrightarrow> (\<exists>b c. (pubkey, Inr b, c) \<in> set bets \<and> b_amount b < 2 ^ 53 \<and>
                           b_prediction b = winningPrediction (a_bossDefeated acct) \<and>
                           b_bettor b = bettor)) \<and>
            (r \<in> set (reported (processPayouts (Inr acct) (Inr bets) s))
               \<longleftrightarrow> (\<exists>pk b tx. (pk, Inr b, Inr tx) \<in> set bets \<and> b_amount b < 2 ^ 53 \<and>
                           b_prediction b = winningPrediction (a_bossDefeated acct) \<and>
                           r = payout_entry W L (int (a_feePercentage acct)) b
                                 (int (b_amount b)) tx)))"
proof -
  have 0: "processPayouts (Inr acct) scanned s = (claimFees s, Inr None)" if "W = 0"
    using that assms by (auto simp: processPayouts_def toNumber_def Let_def)
  have 1: "Rpc (ClaimPayout pubkey bettor) \<in> set (fst (processPayouts (Inr acct) (Inr bets) s))
               \<longleftrightarrow> (\<exists>b c. (pubkey, Inr b, c) \<in> set bets \<and> b_amount b < 2 ^ 53 \<and>
                           b_prediction b = winningPrediction (a_bossDefeated acct) \<and>
                           b_bettor b = bettor)"
    if "W \<noteq> 0"
    using that assms
    by (simp add: processPayouts_winners payout_loop_claims claimFees_no_claimPayout)
  have 2: "r \<in> set (reported (processPayouts (Inr acct) (Inr bets) s))
               \<longleftrightarrow> (\<exists>pk b tx. (pk, Inr b, Inr tx) \<in> set bets \<and> b_amount b < 2 ^ 53 \<and>
                           b_prediction b = winningPrediction (a_bossDefeated acct) \<and>
                           r = payout_entry W L (int (a_feePercentage acct)) b
                                 (int (b_amount b)) tx)"
    if "W \<noteq> 0"
    using that assms
    by (simp add: processPayouts_winners reported_def payout_loop_reports)
  from 0 1 2 show ?thesis by blast
qed

lemma one_winner_share: "prizeShare 100000000000 5 1000000029 1000000029 = 94999999999"
  by (simp add: prizeShare_def prizePool_def feeAmount_def js_mul_def js_sub_def
      js_floor_div_def fl_int_def floor_log2_def ge_pow2_def round_half_even_def
      bit_length.simps Let_def)

lemma one_winner_total: "totalPayout 100000000000 5 1000000029 1000000029 = 96000000028"
  by (simp add: totalPayout_def one_winner_share js_add_def fl_int_def)

text \<open>
  The product and the quotient of the round evaluated below, in the integer arithmetic of
  the settlement and in that of \<^typ>\<open>js_number\<close>: the two descriptions of rounding agree.
\<close>

lemma one_winner_product:
  "js_mul 95000000000 1000000029 = 95000002754999992320"
  "num_mul (Num 95000000000) (Num 1000000029) = Num 95000002754999992320"
  by (simp_all add: js_mul_def fl_int_def round_half_even_def num_mul_def double_eval)

lemma one_winner_quotient:
  "num_div (Num 95000002754999992320) (Num 1000000029) = Num (6225919999999999 / 65536)"
  "\<lfloor>6225919999999999 / 65536 :: rat\<rfloor> = 94999999999"
  by (simp_all add: num_div_def double_eval)

text \<open>
  C5. The claim does not hold of the settlement in \<^verbatim>\<open>processPayouts\<close>. Lines 791--794 take
  the floor of each quotient, but on doubles: the totals and the bet are converted with
  \<^verbatim>\<open>toNumber()\<close> and the product \<^verbatim>\<open>prizePool * betAmount\<close> is rounded to 53 bits before it is
  divided. In the round evaluated here the boss is defeated, the survival side lost
  100 SOL, the fee is 5 percent and the only winner bet 1.000000029 SOL. The prize pool is
  95000000000 lamports; its product with the bet, 95000002755000000000, is rounded to
  the double 95000002754999992320, whose quotient by 1000000029 is below 95000000000. The
  server issues the one \<^verbatim>\<open>claimPayout\<close>, for the winner only, and reports a share of
  94999999999 and a payout of 96000000028 lamports, where
  \<open>amount + \<lfloor>(L - \<lfloor>L \<times> feePct / 100\<rfloor>) \<times> amount / W\<rfloor>\<close> is 96000000029.
\<close>

theorem settlement_payout_one_lamport_short:
  "bettingRoundPDA round3_hp0 \<noteq> None \<and>
   processPayouts (Inr acct_one_winner) (Inr scan_one_winner) round3_hp0 =
     ([Rpc (ClaimPayout ''B1'' ''W1''), Rpc ClaimFees,
       Emit (PayoutsProcessed True ''death'' 100000000000 1000000029
         [\<lparr>p_username = ''alice'', p_wallet = ''W1'', p_betAmount = 1000000029,
           p_prizeShare = 94999999999, p_totalPayout = 96000000028,
           p_signature = ''tx1''\<rparr>])],
      Inr (Some [\<lparr>p_username = ''alice'', p_wallet = ''W1'', p_betAmount = 1000000029,
                  p_prizeShare = 94999999999, p_totalPayout = 96000000028,
                  p_signature = ''tx1''\<rparr>])) \<and>
   exact_totalPayout 100000000000 5 1000000029 1000000029 = 96000000029"
proof -
  have loop: "payout_loop ''death'' 1000000029 100000000000 5 scan_one_winner =
     ([Rpc (ClaimPayout ''B1'' ''W1'')],
      [\<lparr>p_username = ''alice'', p_wallet = ''W1'', p_betAmount = 1000000029,
        p_prizeShare = 94999999999, p_totalPayout = 96000000028, p_signature = ''tx1''\<rparr>])"
    by (simp add: scan_one_winner_def payout_step_def payout_entry_def bet_winner_def
        bet_loser_def toNumber_def one_winner_share one_winner_total)
  have "processPayouts (Inr acct_one_winner) (Inr scan_one_winner) round3_hp0 =
     ([Rpc (ClaimPayout ''B1'' ''W1''), Rpc ClaimFees,
       Emit (PayoutsProcessed True ''death'' 100000000000 1000000029
         [\<lparr>p_username = ''alice'', p_wallet = ''W1'', p_betAmount = 1000000029,
           p_prizeShare = 94999999999, p_totalPayout = 96000000028,
           p_signature = ''tx1''\<rparr>])],
      Inr (Some [\<lparr>p_username = ''alice'', p_wallet = ''W1'', p_betAmount = 1000000029,
                  p_prizeShare = 94999999999, p_totalPayout = 96000000028,
                  p_signature = ''tx1''\<rparr>]))"
    by (simp add: processPayouts_def round3_hp0_pdas acct_one_winner_def toNumber_def
        winningPrediction_def totalWinnerBets_def totalLoserBets_def loop claimFees_def
        Let_def)
  moreover have "exact_totalPayout 100000000000 5 1000000029 1000000029 = 96000000029"
    by (simp add: exact_totalPayout_def exact_prizeShare_def)
  ultimately show ?thesis by (simp add: round3_hp0_pdas)
qed

end
